theory Spec2Isabelle
  imports Main "HOL-Library.Word"
begin

section \<open>Data model\<close>

text \<open>
  The errors the actions and the quota ledger return. \<open>errors_New\<close> is Go's
  \<^verbatim>\<open>errors.New(msg)\<close>, used by the actions for a parameter of the wrong
  runtime type; \<open>ErrAppAlreadyExists\<close> and \<open>ErrAppNotFound\<close> are the two package
  variables of \<^verbatim>\<open>app/actions.go\<close>. The others come from packages that the
  actions call: the quota errors, the errors of the database driver, and a failure
  of an external collaborator, passed on verbatim.
\<close>

datatype error =
    errors_New string
  | ErrAppAlreadyExists
  | ErrAppNotFound
  | ErrUserNotFound
  | QuotaExceededError int int
  | InsufficientReservation
  | mgo_ErrNotFound
  | mgo_Dup
  | ExternalFailure string

text \<open>
  The \<^verbatim>\<open>Error()\<close> method: the message of an error, for the errors whose
  text the sources give (\<^verbatim>\<open>app/actions.go\<close>, and \<^verbatim>\<open>TestReleaseUnreservedUnits\<close>
  for the release of unreserved units); \<open>None\<close> for an error whose text is written
  in a package that is not among the sources.
\<close>

fun Error :: "error \<Rightarrow> string option" where
  "Error (errors_New m) = Some m"
| "Error ErrAppAlreadyExists = Some ''there is already an app with this name.''"
| "Error ErrAppNotFound = Some ''App not found''"
| "Error InsufficientReservation = Some ''Not enough reserved units''"
| "Error (ExternalFailure m) = Some m"
| "Error _ = None"

text \<open>\<^verbatim>\<open>mgo.IsDup(err)\<close>: is the error the driver's duplicate-key error.\<close>

fun IsDup :: "error option \<Rightarrow> bool" where
  "IsDup (Some mgo_Dup) = True"
| "IsDup _ = False"

text \<open>
  \<^verbatim>\<open>quota.Quota\<close>: a limit and the current consumption. Go's \<^verbatim>\<open>App\<close> and
  \<^verbatim>\<open>auth.User\<close> embed the struct, so that \<^verbatim>\<open>app.InUse\<close> and \<^verbatim>\<open>app.Limit\<close>
  are fields of the app; the records below extend \<open>Quota\<close> in the same way.
\<close>

record Quota =
  Limit :: int
  InUse :: int

text \<open>
  Modelled from the spec: \<^verbatim>\<open>quota.Unlimited\<close> is declared in the quota package,
  which is not among the sources. The spec says that a sentinel value of the limit
  denotes "unlimited"; the sentinel is taken to be \<open>-1\<close>, and the consumption of
  the value is \<open>0\<close> (\<^verbatim>\<open>TestInsertAppForwardWithQuota\<close> expects
  \<^verbatim>\<open>Quota{Limit: 2}\<close> once the limit of \<^verbatim>\<open>quota.Unlimited\<close> is overwritten).
\<close>

definition Unlimited :: Quota where
  "Unlimited = \<lparr>Limit = - 1, InUse = 0\<rparr>"

definition is_unlimited :: "'a Quota_scheme \<Rightarrow> bool" where
  "is_unlimited q \<longleftrightarrow> Limit q = Limit Unlimited"

text \<open>\<^verbatim>\<open>app.Unit\<close>, with the fields that the actions set.\<close>

record Unit =
  UnitName :: string
  UnitType :: string
  UnitIp :: string
  UnitMachine :: int
  UnitState :: string
  UnitInstanceId :: string

text \<open>The zero value \<^verbatim>\<open>Unit{}\<close>.\<close>

definition Unit_zero :: Unit where
  "Unit_zero = \<lparr>UnitName = [], UnitType = [], UnitIp = [], UnitMachine = 0,
     UnitState = [], UnitInstanceId = []\<rparr>"

text \<open>\<^verbatim>\<open>bind.EnvVar\<close>.\<close>

record EnvVar =
  EnvName :: string
  EnvValue :: string
  EnvPublic :: bool
  EnvInstanceName :: string

text \<open>
  \<^verbatim>\<open>App\<close>: the application record, with the embedded quota. \<open>Env\<close> is Go's
  \<^verbatim>\<open>map[string]bind.EnvVar\<close>.
\<close>

record App = Quota +
  Name :: string
  Platform :: string
  Units :: "Unit list"
  Env :: "string \<rightharpoonup> EnvVar"

text \<open>\<^verbatim>\<open>auth.User\<close>: the user record, with the embedded quota.\<close>

record User = Quota +
  Email :: string

section \<open>The persistent store\<close>

text \<open>
  A collection of records keyed by a unique name (the name of an app, the e-mail
  address of a user).
\<close>

type_synonym 'r collection = "string \<rightharpoonup> 'r"

text \<open>
  Modelled from the spec: the database package is not among the sources. The
  collaborator contract of the persistent store is
  \<^verbatim>\<open>find-by-name(name) -> record | NotFound\<close>,
  \<^verbatim>\<open>conditional-update(name, expectedCurrentValue, newValue) -> ok|conflict\<close>,
  \<^verbatim>\<open>insert(record)\<close>, which fails distinctly on a duplicate unique key, and
  \<^verbatim>\<open>remove(name)\<close>. Each operation is one atomic access to the collection.
  The conditional update compares and sets the consumption of the record's quota;
  \<open>None\<close> is the conflict (no record of that name with the expected value).
\<close>

definition find_by_name :: "'r collection \<Rightarrow> string \<Rightarrow> 'r option" where
  "find_by_name c n = c n"

definition conditional_update ::
  "'a Quota_scheme collection \<Rightarrow> string \<Rightarrow> int \<Rightarrow> int \<Rightarrow> 'a Quota_scheme collection option"
where
  "conditional_update c n expected new =
     (case c n of
        None \<Rightarrow> None
      | Some r \<Rightarrow> if InUse r = expected then Some (c(n \<mapsto> r\<lparr>InUse := new\<rparr>)) else None)"

text \<open>
  The unconditional update of the unlimited path: the store adds the amount to the
  consumption of the record, whatever its current value; \<open>None\<close> when there is no
  record of that name.
\<close>

definition increment ::
  "'a Quota_scheme collection \<Rightarrow> string \<Rightarrow> int \<Rightarrow> 'a Quota_scheme collection option"
where
  "increment c n amount =
     (case c n of
        None \<Rightarrow> None
      | Some r \<Rightarrow> Some (c(n \<mapsto> r\<lparr>InUse := InUse r + amount\<rparr>)))"

section \<open>Quota ledger\<close>

text \<open>
  Modelled from the spec: \<^verbatim>\<open>reserveUnits\<close> and \<^verbatim>\<open>releaseUnits\<close> (and their
  counterparts for users in the auth package) are called by the actions and by
  \<^verbatim>\<open>app/quota_test.go\<close>, but the file that defines them is not among the
  sources. The spec (section 4.1) gives \<open>reserve\<close>: it fails with NotFound if the
  owner record does not exist; if the owner's quota is unlimited it persists
  \<open>inUse += amount\<close> unconditionally and returns success; otherwise it computes
  \<open>available = limit - inUse\<close>, fails with QuotaExceeded (requested, available)
  and no change if \<open>amount > available\<close>, and otherwise attempts a conditional
  update that succeeds only if \<open>inUse\<close> has not changed since it was read; on a
  conflict it re-reads the record and retries the whole reserve from scratch.

  The functions return the store and the error (\<open>None\<close> is Go's \<^verbatim>\<open>nil\<close>), and
  a log of the accesses to the store, so that the path taken can be read.
  \<open>nf\<close> is the NotFound error of the owner's kind.
\<close>

datatype access =
    Find string
  | UnconditionalUpdate string int
  | ConditionalUpdate string int int bool

function reserve ::
  "error \<Rightarrow> 'a Quota_scheme collection \<Rightarrow> string \<Rightarrow> int
    \<Rightarrow> 'a Quota_scheme collection \<times> error option \<times> access list"
where
  "reserve nf c owner amount =
     (case find_by_name c owner of
        None \<Rightarrow> (c, Some nf, [Find owner])
      | Some r \<Rightarrow>
          if is_unlimited r then
            (case increment c owner amount of
               None \<Rightarrow> (c, Some nf, [Find owner, UnconditionalUpdate owner amount])
             | Some c' \<Rightarrow> (c', None, [Find owner, UnconditionalUpdate owner amount]))
          else
            let available = Limit r - InUse r in
            if amount > available then
              (c, Some (QuotaExceededError amount available), [Find owner])
            else
              (case conditional_update c owner (InUse r) (InUse r + amount) of
                 Some c' \<Rightarrow>
                   (c', None,
                    [Find owner, ConditionalUpdate owner (InUse r) (InUse r + amount) True])
               | None \<Rightarrow>
                   (case reserve nf c owner amount of
                      (c', e, l) \<Rightarrow>
                        (c', e,
                         [Find owner,
                          ConditionalUpdate owner (InUse r) (InUse r + amount) False] @ l))))"
  by pat_completeness auto
termination
  by (relation "{}") (auto simp: find_by_name_def conditional_update_def)

text \<open>
  \<open>release\<close> (spec, section 4.1): it fails with NotFound if the owner does not
  exist, and with InsufficientReservation if \<open>amount > inUse\<close>; otherwise it
  applies the same conditional update with retry to compute \<open>inUse -= amount\<close>.
\<close>

function release ::
  "error \<Rightarrow> 'a Quota_scheme collection \<Rightarrow> string \<Rightarrow> int
    \<Rightarrow> 'a Quota_scheme collection \<times> error option \<times> access list"
where
  "release nf c owner amount =
     (case find_by_name c owner of
        None \<Rightarrow> (c, Some nf, [Find owner])
      | Some r \<Rightarrow>
          if amount > InUse r then (c, Some InsufficientReservation, [Find owner])
          else
            (case conditional_update c owner (InUse r) (InUse r - amount) of
               Some c' \<Rightarrow>
                 (c', None,
                  [Find owner, ConditionalUpdate owner (InUse r) (InUse r - amount) True])
             | None \<Rightarrow>
                 (case release nf c owner amount of
                    (c', e, l) \<Rightarrow>
                      (c', e,
                       [Find owner,
                        ConditionalUpdate owner (InUse r) (InUse r - amount) False] @ l))))"
  by pat_completeness auto
termination
  by (relation "{}") (auto simp: find_by_name_def conditional_update_def)

section \<open>The values that an action receives and returns\<close>

text \<open>\<^verbatim>\<open>queue.Message\<close>.\<close>

record Message =
  Action :: string
  Args :: "string list"

text \<open>\<^verbatim>\<open>provision.Unit\<close>, with the fields that the actions read.\<close>

record provision_Unit =
  pName :: string
  pType :: string
  pIp :: string
  pMachine :: int
  pInstanceId :: string

text \<open>\<^verbatim>\<open>s3Env\<close>: the embedded \<^verbatim>\<open>aws.Auth\<close> (access key and secret key), the
  bucket, the endpoint and the location constraint.\<close>

record s3Env =
  AccessKey :: string
  SecretKey :: string
  bucket :: string
  endpoint :: string
  locationConstraint :: bool

text \<open>
  The pipeline carries its arguments as \<^verbatim>\<open>[]interface{}\<close>: a value with its
  runtime type. These are the runtime types that the actions and their tests use.
  A pointer to an app is modelled by the app it points to. Go's \<^verbatim>\<open>uint\<close> has
  64 bits.
\<close>

datatype param =
    PApp App
  | PAppPtr App
  | PUser User
  | PUserPtr User
  | PInt int
  | PUint "64 word"
  | PString string
  | PNil

text \<open>\<^verbatim>\<open>action.Result\<close> is \<^verbatim>\<open>interface{}\<close> too: the results of the actions.\<close>

datatype result =
    RNil
  | RAppPtr App
  | RInt int
  | RStringMap "(string \<times> string) list"
  | RS3EnvPtr s3Env
  | RAddUnitsPtr "provision_Unit list"

text \<open>
  \<^verbatim>\<open>action.FWContext\<close> and \<^verbatim>\<open>action.BWContext\<close>: the arguments of the
  pipeline, with the result of the previous action (forward) or the result of the
  forward function of the same action (backward). The actions of this package use
  them with \<open>param\<close> and \<open>result\<close>.
\<close>

record ('p, 'r) FWContext =
  Params :: "'p list"
  Previous :: 'r

record ('p, 'r) BWContext =
  BWParams :: "'p list"
  FWResult :: 'r

text \<open>A call of a forward function returns a result and an error, or panics (an
  index out of range, a failed type assertion).\<close>

datatype outcome = Returned result "error option" | Panicked

text \<open>\<^verbatim>\<open>xs[i]\<close>: \<open>None\<close> is the panic of an index out of range.\<close>

definition index :: "'a list \<Rightarrow> nat \<Rightarrow> 'a option" where
  "index xs i = (if i < length xs then Some (xs ! i) else None)"

text \<open>The type switch on \<^verbatim>\<open>App\<close> and \<^verbatim>\<open>*App\<close>, which copies the app; \<open>None\<close> is
  the \<^verbatim>\<open>default\<close> branch.\<close>

fun as_App :: "param \<Rightarrow> App option" where
  "as_App (PApp a) = Some a"
| "as_App (PAppPtr a) = Some a"
| "as_App _ = None"

text \<open>The type switch on \<^verbatim>\<open>auth.User\<close> and \<^verbatim>\<open>*auth.User\<close>.\<close>

fun as_User :: "param \<Rightarrow> User option" where
  "as_User (PUser u) = Some u"
| "as_User (PUserPtr u) = Some u"
| "as_User _ = None"

text \<open>The type switch on \<^verbatim>\<open>int\<close> and \<^verbatim>\<open>uint\<close>; \<^verbatim>\<open>int(u)\<close> reads the 64 bits
  as a signed number.\<close>

fun as_int :: "param \<Rightarrow> int option" where
  "as_int (PInt n) = Some n"
| "as_int (PUint u) = Some (sint u)"
| "as_int _ = None"

text \<open>The type assertion \<^verbatim>\<open>.(*App)\<close>.\<close>

fun as_AppPtr :: "param \<Rightarrow> App option" where
  "as_AppPtr (PAppPtr a) = Some a"
| "as_AppPtr _ = None"

section \<open>The world of the actions\<close>

text \<open>What was written and started, in the order in which it happened.\<close>

datatype effect =
    Inserted App
  | UpdatedUnits string "Unit list"
  | Started "Message list"

text \<open>
  The state that the actions read and change: the two collections of the database,
  the configuration, and the log of the writes to the apps and of the goroutines
  started with \<^verbatim>\<open>go Enqueue(messages...)\<close>. \<open>conn_err\<close> is the error of
  \<^verbatim>\<open>db.Conn()\<close>, when the database cannot be reached; \<open>write_err\<close> is the error
  that the driver reports for a write that the store does not reject itself.
\<close>

record world =
  conn_err :: "error option"
  write_err :: "error option"
  apps :: "App collection"
  users :: "User collection"
  config_int :: "string \<rightharpoonup> int"
  config_string :: "string \<rightharpoonup> string"
  effects :: "effect list"

text \<open>\<^verbatim>\<open>db.Conn()\<close>: the error, if any.\<close>

definition db_Conn :: "world \<Rightarrow> error option" where
  "db_Conn w = conn_err w"

text \<open>\<^verbatim>\<open>config.GetInt(key)\<close> and \<^verbatim>\<open>config.GetString(key)\<close>: \<open>None\<close> is the error
  of a key that is not set (or not set to a value of the type).\<close>

definition config_GetInt :: "world \<Rightarrow> string \<Rightarrow> int option" where
  "config_GetInt w key = config_int w key"

definition config_GetString :: "world \<Rightarrow> string \<Rightarrow> string option" where
  "config_GetString w key = config_string w key"

text \<open>
  Modelled from the spec: \<^verbatim>\<open>conn.Apps().Insert(app)\<close>, the store's
  \<^verbatim>\<open>insert(record)\<close>, which "fails distinctly on duplicate unique key" (the name
  of the app).
\<close>

definition Apps_Insert :: "world \<Rightarrow> App \<Rightarrow> world \<times> error option" where
  "Apps_Insert w app =
     (if Name app \<in> dom (apps w) then (w, Some mgo_Dup)
      else case write_err w of
             Some e \<Rightarrow> (w, Some e)
           | None \<Rightarrow>
               (w\<lparr>apps := (apps w)(Name app \<mapsto> app), effects := effects w @ [Inserted app]\<rparr>,
                None))"

text \<open>
  Modelled from the spec: \<^verbatim>\<open>conn.Apps().Update(bson.M{"name": name},
  bson.M{"$set": bson.M{"units": units}})\<close>: the units of the record of that name
  are replaced; the driver's not-found error when there is no such record.
\<close>

definition Apps_Update_units :: "world \<Rightarrow> string \<Rightarrow> Unit list \<Rightarrow> world \<times> error option" where
  "Apps_Update_units w n us =
     (case apps w n of
        None \<Rightarrow> (w, Some mgo_ErrNotFound)
      | Some a \<Rightarrow>
          (case write_err w of
             Some e \<Rightarrow> (w, Some e)
           | None \<Rightarrow>
               (w\<lparr>apps := (apps w)(n \<mapsto> a\<lparr>Units := us\<rparr>),
                  effects := effects w @ [UpdatedUnits n us]\<rparr>,
                None)))"

text \<open>
  Modelled from the spec: \<^verbatim>\<open>app.Get()\<close> is a method of \<^verbatim>\<open>App\<close> whose file is
  not among the sources; it loads the record of the app's name from the store
  (\<^verbatim>\<open>find-by-name(name) -> record | NotFound\<close>).
\<close>

definition App_Get :: "world \<Rightarrow> App \<Rightarrow> error + App" where
  "App_Get w app =
     (case db_Conn w of
        Some e \<Rightarrow> Inl e
      | None \<Rightarrow>
          (case find_by_name (apps w) (Name app) of
             None \<Rightarrow> Inl mgo_ErrNotFound
           | Some a \<Rightarrow> Inr a))"

text \<open>
  \<^verbatim>\<open>reserveUnits(&app, n)\<close> and \<^verbatim>\<open>releaseUnits(&app, n)\<close>: the quota ledger on
  the collection of apps.
\<close>

definition reserveUnits :: "world \<Rightarrow> App \<Rightarrow> int \<Rightarrow> world \<times> error option" where
  "reserveUnits w app quantity =
     (case db_Conn w of
        Some e \<Rightarrow> (w, Some e)
      | None \<Rightarrow>
          (case reserve ErrAppNotFound (apps w) (Name app) quantity of
             (c, e, l) \<Rightarrow> (w\<lparr>apps := c\<rparr>, e)))"

definition releaseUnits :: "world \<Rightarrow> App \<Rightarrow> int \<Rightarrow> world \<times> error option" where
  "releaseUnits w app quantity =
     (case db_Conn w of
        Some e \<Rightarrow> (w, Some e)
      | None \<Rightarrow>
          (case release ErrAppNotFound (apps w) (Name app) quantity of
             (c, e, l) \<Rightarrow> (w\<lparr>apps := c\<rparr>, e)))"

text \<open>
  Modelled from the spec: \<^verbatim>\<open>auth.GetUserByEmail\<close> and \<^verbatim>\<open>auth.ReserveApp\<close> belong
  to the auth package, which is not among the sources: the lookup of the user's
  record in the store, and the quota ledger on the collection of users, one app
  at a time.
\<close>

definition auth_GetUserByEmail :: "world \<Rightarrow> string \<Rightarrow> error + User" where
  "auth_GetUserByEmail w email =
     (case db_Conn w of
        Some e \<Rightarrow> Inl e
      | None \<Rightarrow>
          (case find_by_name (users w) email of
             None \<Rightarrow> Inl ErrUserNotFound
           | Some u \<Rightarrow> Inr u))"

definition auth_ReserveApp :: "world \<Rightarrow> User \<Rightarrow> world \<times> error option" where
  "auth_ReserveApp w user =
     (case db_Conn w of
        Some e \<Rightarrow> (w, Some e)
      | None \<Rightarrow>
          (case reserve ErrUserNotFound (users w) (Email user) 1 of
             (c, e, l) \<Rightarrow> (w\<lparr>users := c\<rparr>, e)))"

section \<open>The actions of \<^verbatim>\<open>app/actions.go\<close>\<close>

text \<open>
  The names that the forward functions use and that are declared in files which
  are not among the sources are parameters of the model:
  the string constants \<^verbatim>\<open>s3InstanceName\<close>, \<^verbatim>\<open>RegenerateApprcAndStart\<close> and
  \<^verbatim>\<open>BindService\<close>; the text of
  \<^verbatim>\<open>provision.StatusBuilding.String()\<close>; the method \<^verbatim>\<open>app.AddUnit(&unit)\<close>, which
  changes the app (and is taken to leave the unit that it receives as it is); the method \<^verbatim>\<open>app.setEnvsToApp(envVars, publicOnly, useQueue)\<close>,
  which changes the world and returns an error; \<^verbatim>\<open>auth.CreateApplicationToken(name)\<close>,
  which returns the text of a new token or an error; and the order in which the
  Go runtime visits the keys of a map in a \<^verbatim>\<open>range\<close> loop.
\<close>

record deps =
  s3InstanceName :: string
  RegenerateApprcAndStart :: string
  BindService :: string
  StatusBuilding_String :: string
  AddUnit :: "App \<Rightarrow> Unit \<Rightarrow> App"
  setEnvsToApp :: "world \<Rightarrow> App \<Rightarrow> EnvVar list \<Rightarrow> bool \<Rightarrow> bool \<Rightarrow> world \<times> error option"
  CreateApplicationToken :: "world \<Rightarrow> string \<Rightarrow> world \<times> (error + string)"
  range_order :: "string list"

subsection \<open>\<^verbatim>\<open>reserveUserApp\<close>\<close>

definition reserveUserApp_Forward :: "world \<Rightarrow> (param, result) FWContext \<Rightarrow> world \<times> outcome" where
  "reserveUserApp_Forward w ctx =
     (case index (Params ctx) 0 of
        None \<Rightarrow> (w, Panicked)
      | Some p0 \<Rightarrow>
     (case as_App p0 of
        None \<Rightarrow> (w, Returned RNil (Some (errors_New ''First parameter must be App or *App.'')))
      | Some app \<Rightarrow>
     (case index (Params ctx) 1 of
        None \<Rightarrow> (w, Panicked)
      | Some p1 \<Rightarrow>
     (case as_User p1 of
        None \<Rightarrow>
          (w, Returned RNil
                (Some (errors_New ''Third parameter must be auth.User or *auth.User.'')))
      | Some user \<Rightarrow>
     (case auth_GetUserByEmail w (Email user) of
        Inl err \<Rightarrow> (w, Returned RNil (Some err))
      | Inr usr \<Rightarrow>
     (case auth_ReserveApp w usr of
        (w', Some err) \<Rightarrow> (w', Returned RNil (Some err))
      | (w', None) \<Rightarrow>
          (w', Returned (RStringMap [(''app'', Name app), (''user'', Email user)]) None)))))))"

subsection \<open>\<^verbatim>\<open>insertApp\<close>\<close>

definition insertApp_Forward :: "world \<Rightarrow> (param, result) FWContext \<Rightarrow> world \<times> outcome" where
  "insertApp_Forward w ctx =
     (case index (Params ctx) 0 of
        None \<Rightarrow> (w, Panicked)
      | Some p0 \<Rightarrow>
     (case as_App p0 of
        None \<Rightarrow> (w, Returned RNil (Some (errors_New ''First parameter must be App or *App.'')))
      | Some app \<Rightarrow>
     (case db_Conn w of
        Some err \<Rightarrow> (w, Returned RNil (Some err))
      | None \<Rightarrow>
          (let app1 = app\<lparr>Limit := Limit Unlimited, InUse := InUse Unlimited\<rparr>;
               app2 = (case config_GetInt w ''quota:units-per-app'' of
                         Some limit \<Rightarrow> app1\<lparr>Limit := limit\<rparr>
                       | None \<Rightarrow> app1);
               app3 = app2\<lparr>Units := Units app2 @ [Unit_zero]\<rparr>
           in case Apps_Insert w app3 of
                (w', err) \<Rightarrow>
                  if IsDup err then (w', Returned RNil (Some ErrAppAlreadyExists))
                  else (w', Returned (RAppPtr app3) err)))))"

subsection \<open>\<^verbatim>\<open>exportEnvironmentsAction\<close>\<close>

text \<open>The map literal \<^verbatim>\<open>variables\<close>, key by key.\<close>

definition s3_variables :: "s3Env \<Rightarrow> (string \<times> string) list" where
  "s3_variables env =
     [(''ENDPOINT'', endpoint env),
      (''LOCATIONCONSTRAINT'', if locationConstraint env then ''true'' else ''false''),
      (''ACCESS_KEY_ID'', AccessKey env),
      (''SECRET_KEY'', SecretKey env),
      (''BUCKET'', bucket env)]"

text \<open>
  \<^verbatim>\<open>for name, value := range variables { envVars = append(envVars, ...) }\<close>: the
  loop visits the keys in the order \<open>ks\<close> of the runtime. \<^verbatim>\<open>bind.EnvVar\<close> has the
  zero value \<^verbatim>\<open>false\<close> for \<^verbatim>\<open>Public\<close>, and \<^verbatim>\<open>fmt.Sprintf("TSURU_S3_%s", name)\<close>
  puts the prefix before the key.
\<close>

fun range_variables ::
  "string \<Rightarrow> (string \<rightharpoonup> string) \<Rightarrow> string list \<Rightarrow> EnvVar list \<Rightarrow> EnvVar list"
where
  "range_variables inst variables [] envVars = envVars"
| "range_variables inst variables (name # ks) envVars =
     (case variables name of
        None \<Rightarrow> range_variables inst variables ks envVars
      | Some v \<Rightarrow>
          range_variables inst variables ks
            (envVars @ [\<lparr>EnvName = ''TSURU_S3_'' @ name, EnvValue = v, EnvPublic = False,
                         EnvInstanceName = inst\<rparr>]))"

text \<open>The environment variables that the forward function builds: the three of every
  app and, when the previous result is a \<^verbatim>\<open>*s3Env\<close>, those of the bucket.\<close>

definition export_envVars :: "deps \<Rightarrow> App \<Rightarrow> string \<Rightarrow> string \<Rightarrow> result \<Rightarrow> EnvVar list" where
  "export_envVars d app host token previous =
     (let envVars =
            [\<lparr>EnvName = ''TSURU_APPNAME'', EnvValue = Name app, EnvPublic = False,
              EnvInstanceName = []\<rparr>,
             \<lparr>EnvName = ''TSURU_HOST'', EnvValue = host, EnvPublic = False,
              EnvInstanceName = []\<rparr>,
             \<lparr>EnvName = ''TSURU_APP_TOKEN'', EnvValue = token, EnvPublic = False,
              EnvInstanceName = []\<rparr>]
      in case previous of
           RS3EnvPtr env \<Rightarrow>
             range_variables (s3InstanceName d) (map_of (s3_variables env)) (range_order d) envVars
         | _ \<Rightarrow> envVars)"

definition exportEnvironmentsAction_Forward ::
  "deps \<Rightarrow> world \<Rightarrow> (param, result) FWContext \<Rightarrow> world \<times> outcome"
where
  "exportEnvironmentsAction_Forward d w ctx =
     (case index (Params ctx) 0 of
        None \<Rightarrow> (w, Panicked)
      | Some p0 \<Rightarrow>
     (case as_AppPtr p0 of
        None \<Rightarrow> (w, Panicked)
      | Some app0 \<Rightarrow>
     (case App_Get w app0 of
        Inl err \<Rightarrow> (w, Returned RNil (Some err))
      | Inr app \<Rightarrow>
     (case CreateApplicationToken d w (Name app) of
        (w1, Inl err) \<Rightarrow> (w1, Returned RNil (Some err))
      | (w1, Inr token) \<Rightarrow>
          (let host = (case config_GetString w1 ''host'' of Some h \<Rightarrow> h | None \<Rightarrow> []);
               envVars = export_envVars d app host token (Previous ctx)
           in case setEnvsToApp d w1 app envVars False True of
                (w2, Some err) \<Rightarrow> (w2, Returned RNil (Some err))
              | (w2, None) \<Rightarrow> (w2, Returned (Previous ctx) None))))))"

subsection \<open>\<^verbatim>\<open>reserveUnitsToAdd\<close>\<close>

definition reserveUnitsToAdd_Forward :: "world \<Rightarrow> (param, result) FWContext \<Rightarrow> world \<times> outcome" where
  "reserveUnitsToAdd_Forward w ctx =
     (case index (Params ctx) 0 of
        None \<Rightarrow> (w, Panicked)
      | Some p0 \<Rightarrow>
     (case as_App p0 of
        None \<Rightarrow> (w, Returned RNil (Some (errors_New ''First parameter must be App or *App.'')))
      | Some app0 \<Rightarrow>
     (case index (Params ctx) 1 of
        None \<Rightarrow> (w, Panicked)
      | Some p1 \<Rightarrow>
     (case as_int p1 of
        None \<Rightarrow> (w, Returned RNil (Some (errors_New ''Second parameter must be int or uint.'')))
      | Some n \<Rightarrow>
     (case db_Conn w of
        Some err \<Rightarrow> (w, Returned RNil (Some err))
      | None \<Rightarrow>
     (case App_Get w app0 of
        Inl err \<Rightarrow> (w, Returned RNil (Some ErrAppNotFound))
      | Inr app \<Rightarrow>
     (case reserveUnits w app n of
        (w', Some err) \<Rightarrow> (w', Returned RNil (Some err))
      | (w', None) \<Rightarrow> (w', Returned (RInt n) None))))))))"

subsection \<open>\<^verbatim>\<open>saveNewUnitsInDatabase\<close>\<close>

text \<open>
  The loop over \<^verbatim>\<open>prev.units\<close>: the app, the slice \<^verbatim>\<open>messages\<close> (made with
  twice as many elements as there are units) and the counter \<^verbatim>\<open>mCount\<close>. A write
  to \<^verbatim>\<open>messages[i]\<close> out of range would panic (\<open>None\<close>). \<open>Message_zero\<close> is the
  zero value of the elements that \<^verbatim>\<open>make\<close> creates.
\<close>

definition Message_zero :: Message where
  "Message_zero = \<lparr>Action = [], Args = []\<rparr>"

definition store :: "'a list \<Rightarrow> nat \<Rightarrow> 'a \<Rightarrow> 'a list option" where
  "store xs i v = (if i < length xs then Some (xs[i := v]) else None)"

text \<open>The unit that the loop builds from a unit of the provisioner.\<close>

definition building_unit :: "deps \<Rightarrow> provision_Unit \<Rightarrow> Unit" where
  "building_unit d u =
     \<lparr>UnitName = pName u, UnitType = pType u, UnitIp = pIp u, UnitMachine = pMachine u,
      UnitState = StatusBuilding_String d, UnitInstanceId = pInstanceId u\<rparr>"

fun save_loop ::
  "deps \<Rightarrow> provision_Unit list \<Rightarrow> App \<Rightarrow> Message list \<Rightarrow> nat \<Rightarrow> (App \<times> Message list) option"
where
  "save_loop d [] app messages mCount = Some (app, messages)"
| "save_loop d (u # us) app messages mCount =
     (let unit = building_unit d u;
          app' = AddUnit d app unit
      in case store messages mCount
                \<lparr>Action = RegenerateApprcAndStart d, Args = [Name app', UnitName unit]\<rparr> of
           None \<Rightarrow> None
         | Some m1 \<Rightarrow>
        (case store m1 (mCount + 1)
                \<lparr>Action = BindService d, Args = [Name app', UnitName unit]\<rparr> of
           None \<Rightarrow> None
         | Some m2 \<Rightarrow> save_loop d us app' m2 (mCount + 2)))"

text \<open>
  What the loop is meant to compute, written without the slice and the counter:
  the app after the units were added, and two messages for each unit, in the
  order of the units.
\<close>

fun added_units :: "deps \<Rightarrow> provision_Unit list \<Rightarrow> App \<Rightarrow> App" where
  "added_units d [] app = app"
| "added_units d (u # us) app = added_units d us (AddUnit d app (building_unit d u))"

fun unit_messages :: "deps \<Rightarrow> provision_Unit list \<Rightarrow> App \<Rightarrow> Message list" where
  "unit_messages d [] app = []"
| "unit_messages d (u # us) app =
     \<lparr>Action = RegenerateApprcAndStart d,
      Args = [Name (AddUnit d app (building_unit d u)), pName u]\<rparr> #
     \<lparr>Action = BindService d,
      Args = [Name (AddUnit d app (building_unit d u)), pName u]\<rparr> #
     unit_messages d us (AddUnit d app (building_unit d u))"

definition saveNewUnitsInDatabase_Forward ::
  "deps \<Rightarrow> world \<Rightarrow> (param, result) FWContext \<Rightarrow> world \<times> outcome"
where
  "saveNewUnitsInDatabase_Forward d w ctx =
     (case index (Params ctx) 0 of
        None \<Rightarrow> (w, Panicked)
      | Some p0 \<Rightarrow>
     (case as_App p0 of
        None \<Rightarrow> (w, Returned RNil (Some (errors_New ''First parameter must be App or *App.'')))
      | Some app0 \<Rightarrow>
     (case Previous ctx of
        RAddUnitsPtr units \<Rightarrow>
          (case db_Conn w of
             Some err \<Rightarrow> (w, Returned RNil (Some err))
           | None \<Rightarrow>
          (case App_Get w app0 of
             Inl err \<Rightarrow> (w, Returned RNil (Some ErrAppNotFound))
           | Inr app \<Rightarrow>
          (case save_loop d units app (replicate (length units * 2) Message_zero) 0 of
             None \<Rightarrow> (w, Panicked)
           | Some (app', messages) \<Rightarrow>
          (case Apps_Update_units w (Name app') (Units app') of
             (w', Some err) \<Rightarrow> (w', Returned RNil (Some err))
           | (w', None) \<Rightarrow>
               (w'\<lparr>effects := effects w' @ [Started messages]\<rparr>, Returned RNil None)))))
      | _ \<Rightarrow> (w, Panicked))))"

section \<open>The pipeline executor\<close>

text \<open>
  Modelled from the spec: the action package (\<^verbatim>\<open>action.Action\<close> and the pipeline
  that executes a list of actions) is imported by \<^verbatim>\<open>app/actions.go\<close>, but it is
  not among the sources. The spec (sections 3 and 4.3) gives: an action has a
  name, a forward operation from a context to a result and an error, an optional
  backward operation without a return value, and the smallest number of pipeline
  arguments that its forward function requires. Starting from an empty execution
  record and a seed, the executor invokes, for each action in order, forward with
  \<open>previous\<close> set to the seed or to the result of the action before; an action
  with too few arguments fails before its forward body runs. When a forward
  returns an error the executor stops advancing and invokes backward, in strict
  reverse order, on every action recorded as succeeded (not on the one that
  failed), each with the result of its own forward, and surfaces the error
  unchanged. If every forward succeeds the result is the last action's result.

  The operations change a world \<open>'w\<close>. The executor also returns the calls that it
  made, in the order in which it made them; an action is named by its position in
  the pipeline.
\<close>

record ('w, 'p, 'r, 'e) Action =
  ActionName :: string
  Forward :: "'w \<Rightarrow> ('p, 'r) FWContext \<Rightarrow> 'w \<times> 'r \<times> 'e option"
  Backward :: "('w \<Rightarrow> ('p, 'r) BWContext \<Rightarrow> 'w) option"
  MinParams :: nat

datatype call = ForwardCall nat | BackwardCall nat

datatype ('r, 'e) terminal =
    Succeeded 'r
  | Failed 'e
  | NotEnoughParameters string nat nat

text \<open>The unwinding: the execution record holds the actions that succeeded with
  their positions and results, the latest first.\<close>

fun unwind ::
  "'p list \<Rightarrow> (nat \<times> ('w, 'p, 'r, 'e) Action \<times> 'r) list \<Rightarrow> 'w \<Rightarrow> call list \<Rightarrow> 'w \<times> call list"
where
  "unwind ps [] w cs = (w, cs)"
| "unwind ps ((i, a, r) # record) w cs =
     (case Backward a of
        None \<Rightarrow> unwind ps record w cs
      | Some backward \<Rightarrow>
          unwind ps record (backward w \<lparr>BWParams = ps, FWResult = r\<rparr>) (cs @ [BackwardCall i]))"

fun running ::
  "'p list \<Rightarrow> ('w, 'p, 'r, 'e) Action list \<Rightarrow> nat \<Rightarrow> 'r
    \<Rightarrow> (nat \<times> ('w, 'p, 'r, 'e) Action \<times> 'r) list \<Rightarrow> 'w \<Rightarrow> call list
    \<Rightarrow> 'w \<times> ('r, 'e) terminal \<times> call list"
where
  "running ps [] i previous record w cs = (w, Succeeded previous, cs)"
| "running ps (a # actions) i previous record w cs =
     (if length ps < MinParams a then
        (case unwind ps record w cs of
           (w', cs') \<Rightarrow> (w', NotEnoughParameters (ActionName a) (MinParams a) (length ps), cs'))
      else
        (case Forward a w \<lparr>Params = ps, Previous = previous\<rparr> of
           (w1, r, Some err) \<Rightarrow>
             (case unwind ps record w1 (cs @ [ForwardCall i]) of
                (w', cs') \<Rightarrow> (w', Failed err, cs'))
         | (w1, r, None) \<Rightarrow>
             running ps actions (i + 1) r ((i, a, r) # record) w1 (cs @ [ForwardCall i])))"

definition Execute ::
  "('w, 'p, 'r, 'e) Action list \<Rightarrow> 'p list \<Rightarrow> 'r \<Rightarrow> 'w \<Rightarrow> 'w \<times> ('r, 'e) terminal \<times> call list"
where
  "Execute actions ps seed w = running ps actions 0 seed [] w []"

section \<open>Concurrent callers of the quota ledger\<close>

text \<open>
  Modelled from the spec: the callers of \<open>reserve\<close> may run in separate processes
  and share nothing but the persistent store, which serialises their accesses
  (sections 4.1 and 5). One call of \<open>reserve\<close> is therefore a sequence of atomic
  accesses to the store, and between two of them the other callers may run. A
  caller is at the start of the call, or has found the quota unlimited and is
  about to update it unconditionally, or has read a consumption and is about to
  update it conditionally, or has returned with an error or without.
\<close>

datatype pc = Start | Unconditional | Conditional int | Finished "error option"

definition reserve_step ::
  "error \<Rightarrow> string \<Rightarrow> int \<Rightarrow> 'a Quota_scheme collection \<Rightarrow> pc
    \<Rightarrow> 'a Quota_scheme collection \<times> pc"
where
  "reserve_step nf n quantity c p =
     (case p of
        Start \<Rightarrow>
          (case find_by_name c n of
             None \<Rightarrow> (c, Finished (Some nf))
           | Some r \<Rightarrow>
               if is_unlimited r then (c, Unconditional)
               else
                 let available = Limit r - InUse r in
                 if quantity > available then
                   (c, Finished (Some (QuotaExceededError quantity available)))
                 else (c, Conditional (InUse r)))
      | Unconditional \<Rightarrow>
          (case increment c n quantity of
             None \<Rightarrow> (c, Finished (Some nf))
           | Some c' \<Rightarrow> (c', Finished None))
      | Conditional v \<Rightarrow>
          (case conditional_update c n v (v + quantity) of
             Some c' \<Rightarrow> (c', Finished None)
           | None \<Rightarrow> (c, Start))
      | Finished e \<Rightarrow> (c, Finished e))"

text \<open>A caller: the owner and the amount of its call, and where it is.\<close>

record caller =
  owner :: string
  amount :: int
  at :: pc

definition finished :: "caller \<Rightarrow> bool" where
  "finished t = (case at t of Finished e \<Rightarrow> True | _ \<Rightarrow> False)"

text \<open>The caller \<open>i\<close> makes its next access to the store.\<close>

definition fire ::
  "error \<Rightarrow> nat \<Rightarrow> 'a Quota_scheme collection \<times> caller list
    \<Rightarrow> 'a Quota_scheme collection \<times> caller list"
where
  "fire nf i cfg =
     (case cfg of
        (c, ts) \<Rightarrow>
          (case reserve_step nf (owner (ts ! i)) (amount (ts ! i)) c (at (ts ! i)) of
             (c', p') \<Rightarrow> (c', ts[i := (ts ! i)\<lparr>at := p'\<rparr>])))"

text \<open>One step of the system: any caller that has not returned makes its next
  access.\<close>

inductive interleave ::
  "error \<Rightarrow> 'a Quota_scheme collection \<times> caller list
    \<Rightarrow> 'a Quota_scheme collection \<times> caller list \<Rightarrow> bool"
  for nf :: error
where
  step: "i < length ts \<Longrightarrow> \<not> finished (ts ! i) \<Longrightarrow> interleave nf (c, ts) (fire nf i (c, ts))"

text \<open>A schedule names the caller of each step; \<open>run_schedule\<close> follows it, and
  \<open>admissible\<close> says that every step of it is a step of the system.\<close>

fun run_schedule ::
  "error \<Rightarrow> nat list \<Rightarrow> 'a Quota_scheme collection \<times> caller list
    \<Rightarrow> 'a Quota_scheme collection \<times> caller list"
where
  "run_schedule nf [] cfg = cfg"
| "run_schedule nf (i # sched) cfg = run_schedule nf sched (fire nf i cfg)"

fun admissible ::
  "error \<Rightarrow> nat list \<Rightarrow> 'a Quota_scheme collection \<times> caller list \<Rightarrow> bool"
where
  "admissible nf [] cfg = True"
| "admissible nf (i # sched) cfg =
     (i < length (snd cfg) \<and> \<not> finished (snd cfg ! i) \<and> admissible nf sched (fire nf i cfg))"

text \<open>The sum of the reservations that succeeded.\<close>

definition granted :: "caller list \<Rightarrow> int" where
  "granted ts = (\<Sum>t\<leftarrow>ts. if at t = Finished None then amount t else 0)"

text \<open>
  A bound on the accesses that are still to come, for twenty callers of
  \<open>reserve\<close> with the amount 3 against the limit 40: a caller at the start has at
  most two accesses before it returns or starts again, a caller whose read is
  stale has three, and each reservation that can still succeed makes the reads of
  the others stale.
\<close>

fun weight :: "int \<Rightarrow> pc \<Rightarrow> nat" where
  "weight u Start = 2"
| "weight u Unconditional = 1"
| "weight u (Conditional v) = (if v = u then 1 else 3)"
| "weight u (Finished e) = 0"

definition potential :: "string \<Rightarrow> 'a Quota_scheme collection \<times> caller list \<Rightarrow> nat" where
  "potential n cfg =
     (case cfg of
        (c, ts) \<Rightarrow>
          (case c n of
             None \<Rightarrow> 0
           | Some r \<Rightarrow>
               41 * nat ((40 - InUse r) div 3) + (\<Sum>t\<leftarrow>ts. weight (InUse r) (at t))))"

text \<open>The invariant of the system of twenty callers of \<open>reserve\<close> with the amount 3
  for the owner \<open>n\<close>, whose limit is 40.\<close>

definition inv40 :: "string \<Rightarrow> 'a Quota_scheme collection \<times> caller list \<Rightarrow> bool" where
  "inv40 n cfg =
     (case cfg of
        (c, ts) \<Rightarrow>
          length ts = 20 \<and>
          (\<forall>t \<in> set ts. owner t = n \<and> amount t = 3) \<and>
          (case c n of
             None \<Rightarrow> False
           | Some r \<Rightarrow>
               Limit r = 40 \<and> InUse r = granted ts \<and> 0 \<le> InUse r \<and> InUse r \<le> 40 \<and>
               (\<forall>t \<in> set ts.
                  case at t of
                    Start \<Rightarrow> True
                  | Unconditional \<Rightarrow> False
                  | Conditional v \<Rightarrow> v \<le> 37
                  | Finished None \<Rightarrow> True
                  | Finished (Some e) \<Rightarrow> e = QuotaExceededError 3 1 \<and> InUse r = 39)))"

section \<open>Concrete inputs\<close>

text \<open>The inputs of the tests, at which the theorems below are instantiated.\<close>

definition empty_world :: world where
  "empty_world =
     \<lparr>conn_err = None, write_err = None, apps = Map.empty, users = Map.empty,
      config_int = Map.empty, config_string = Map.empty, effects = []\<rparr>"

definition new_app :: "string \<Rightarrow> string \<Rightarrow> App" where
  "new_app n p = \<lparr>Limit = 0, InUse = 0, Name = n, Platform = p, Units = [], Env = Map.empty\<rparr>"

definition world_with :: "App \<Rightarrow> world" where
  "world_with a = empty_world\<lparr>apps := [Name a \<mapsto> a]\<rparr>"

text \<open>Three actions on a world that records what ran: the first two succeed, the
  third fails; each has a backward operation.\<close>

definition logging_action ::
  "string \<Rightarrow> string option \<Rightarrow> (string list, nat, string, string) Action"
where
  "logging_action n failure =
     \<lparr>ActionName = n,
      Forward = (\<lambda>w ctx. (w @ [n @ ''.forward''], Previous ctx @ n, failure)),
      Backward = Some (\<lambda>w ctx. w @ [n @ ''.backward('' @ FWResult ctx @ '')'']),
      MinParams = 1\<rparr>"

text \<open>The owner of \<^verbatim>\<open>TestReleaseUnits\<close>: limit 7, all 7 in use; and an owner
  with the unlimited quota.\<close>

definition quota_7_7 :: "Quota collection" where
  "quota_7_7 = [''together'' \<mapsto> \<lparr>Limit = 7, InUse = 7\<rparr>]"

definition quota_unlimited :: "Quota collection" where
  "quota_unlimited = [''together'' \<mapsto> Unlimited]"

text \<open>An instance of the names that are not among the sources: \<^verbatim>\<open>AddUnit\<close>
  appends the unit, \<^verbatim>\<open>setEnvsToApp\<close> stores the variables in the record of the
  app, and the token is a fixed text.\<close>

definition example_deps :: deps where
  "example_deps =
     \<lparr>s3InstanceName = ''tsurus3'',
      RegenerateApprcAndStart = ''regenerate-apprc-start-app'',
      BindService = ''bind-service'',
      StatusBuilding_String = ''building'',
      AddUnit = (\<lambda>a u. a\<lparr>Units := Units a @ [u]\<rparr>),
      setEnvsToApp =
        (\<lambda>w a vars publicOnly useQueue.
           (w\<lparr>apps := (apps w)(Name a \<mapsto> a\<lparr>Env := fold (\<lambda>v e. e(EnvName v \<mapsto> v)) vars (Env a)\<rparr>)\<rparr>,
            None)),
      CreateApplicationToken = (\<lambda>w n. (w, Inr ''token'')),
      range_order = [''BUCKET'', ''ENDPOINT'', ''SECRET_KEY'', ''LOCATIONCONSTRAINT'',
                     ''ACCESS_KEY_ID'']\<rparr>"

definition new_unit :: "string \<Rightarrow> provision_Unit" where
  "new_unit n = \<lparr>pName = n, pType = ''django'', pIp = ''10.10.10.10'', pMachine = 1,
     pInstanceId = ''i-0800''\<rparr>"

definition example_s3Env :: s3Env where
  "example_s3Env =
     \<lparr>AccessKey = ''access'', SecretKey = ''s3cr3t'', bucket = ''mist-bucket'',
      endpoint = ''http://localhost:4567'', locationConstraint = True\<rparr>"

text \<open>The system of \<^verbatim>\<open>TestReserveUnitsIsAtomic\<close>: the limit 40, nothing in use, and
  twenty callers that reserve 3 each. In the schedule \<open>contended\<close> all the callers
  that have not returned read the consumption, then all of them try their
  conditional update, of which the first succeeds and the others find a conflict
  and start again; after thirteen such rounds the seven callers that are left
  read the consumption once more.\<close>

definition limit_40_start :: "Quota collection \<times> caller list" where
  "limit_40_start =
     ([''together'' \<mapsto> \<lparr>Limit = 40, InUse = 0\<rparr>],
      replicate 20 \<lparr>owner = ''together'', amount = 3, at = Start\<rparr>)"

definition contended :: "nat list" where
  "contended = concat (map (\<lambda>j. [j..<20] @ [j..<20]) [0..<13]) @ [13..<20]"

section \<open>Properties of the actions\<close>

subsection \<open>Parameters of the wrong runtime type\<close>

text \<open>The words with which the messages of the actions name a position.\<close>

lemma index_Cons_0: "index (x # xs) 0 = Some x"
  by (simp add: index_def)

lemma index_Cons_1: "index (x # y # xs) (Suc 0) = Some y"
  by (simp add: index_def)

text \<open>
  The sibling \<^verbatim>\<open>reserveUnitsToAdd\<close> checks its parameter at the same position
  \<^verbatim>\<open>Params[1]\<close> and names it as the second one.
\<close>

lemma reserveUnitsToAdd_Forward_invalid_number:
  "reserveUnitsToAdd_Forward w \<lparr>Params = [PApp app, PString ''what''], Previous = prev\<rparr> =
     (w, Returned RNil (Some (errors_New ''Second parameter must be int or uint.'')))"
  by (simp add: reserveUnitsToAdd_Forward_def index_Cons_0 index_Cons_1)

text \<open>
  C3 (the code at the input of \<^verbatim>\<open>TestReserveUserAppForwardInvalidUser\<close>):
  \<^verbatim>\<open>reserveUserApp.Forward\<close>, given an app as the first parameter and, as the second
  parameter \<^verbatim>\<open>Params[1]\<close>, a string, which is neither an \<^verbatim>\<open>auth.User\<close> nor a
  \<^verbatim>\<open>*auth.User\<close>, returns a nil result and an error, and leaves the world as it
  is; the message of the error names the expected type, but it names the third
  parameter, not the second one, which is the one that was checked.
\<close>

theorem reserveUserApp_Forward_invalid_user:
  "reserveUserApp_Forward w \<lparr>Params = [PApp app, PString ''something''], Previous = prev\<rparr> =
     (w, Returned RNil (Some (errors_New ''Third parameter must be auth.User or *auth.User.'')))
   \<and> index [PApp app, PString ''something''] 1 = Some (PString ''something'')
   \<and> as_User (PString ''something'') = None
   \<and> Error (errors_New ''Third parameter must be auth.User or *auth.User.'')
       \<noteq> Some ''Second parameter must be auth.User or *auth.User.''"
  by (simp add: reserveUserApp_Forward_def index_Cons_0 index_Cons_1)

subsection \<open>\<^verbatim>\<open>insertApp\<close>\<close>

text \<open>
  C4: when the first parameter is an app (or a pointer to one) whose name already
  exists in the collection of apps, and the database can be reached,
  \<^verbatim>\<open>insertApp.Forward\<close> returns a nil result and \<^verbatim>\<open>ErrAppAlreadyExists\<close>, and the
  world is the one before the call: no record was created, and nothing is to be
  rolled back.
\<close>

theorem insertApp_Forward_duplicate:
  assumes "index (Params ctx) 0 = Some p"
    and "as_App p = Some app"
    and "db_Conn w = None"
    and "Name app \<in> dom (apps w)"
  shows "insertApp_Forward w ctx = (w, Returned RNil (Some ErrAppAlreadyExists))"
  using assms
  by (simp add: insertApp_Forward_def Apps_Insert_def Let_def split: option.split)

theorem insertApp_Forward_duplicate_witness:
  "index (Params \<lparr>Params = [PAppPtr (new_app ''come'' ''gotthard'')], Previous = RNil\<rparr>) 0
     = Some (PAppPtr (new_app ''come'' ''gotthard''))
   \<and> as_App (PAppPtr (new_app ''come'' ''gotthard'')) = Some (new_app ''come'' ''gotthard'')
   \<and> db_Conn (world_with (new_app ''come'' ''gotthard'')) = None
   \<and> Name (new_app ''come'' ''gotthard'') \<in> dom (apps (world_with (new_app ''come'' ''gotthard'')))
   \<and> insertApp_Forward (world_with (new_app ''come'' ''gotthard''))
        \<lparr>Params = [PAppPtr (new_app ''come'' ''gotthard'')], Previous = RNil\<rparr>
      = (world_with (new_app ''come'' ''gotthard''), Returned RNil (Some ErrAppAlreadyExists))"
proof -
  let ?a = "new_app ''come'' ''gotthard''"
  let ?ctx = "\<lparr>Params = [PAppPtr ?a], Previous = RNil\<rparr>"
  have 1: "index (Params ?ctx) 0 = Some (PAppPtr ?a)"
    by (simp add: index_def)
  have 2: "as_App (PAppPtr ?a) = Some ?a"
    by simp
  have 3: "db_Conn (world_with ?a) = None"
    by (simp add: db_Conn_def world_with_def empty_world_def)
  have 4: "Name ?a \<in> dom (apps (world_with ?a))"
    by (simp add: world_with_def empty_world_def)
  from insertApp_Forward_duplicate [OF 1 2 3 4] 1 2 3 4 show ?thesis
    by blast
qed

text \<open>
  C10: when \<^verbatim>\<open>insertApp.Forward\<close> accepts an app (it returns without an error), the
  result is the record that it inserted, and this record is in the collection
  under the name of the app; its quota is \<^verbatim>\<open>quota.Unlimited\<close> when the key
  \<^verbatim>\<open>quota:units-per-app\<close> is not set, and otherwise the limit is the configured
  value (with the consumption of \<^verbatim>\<open>quota.Unlimited\<close>); its units are those of the
  input followed by one empty unit, so that it has one unit more than the input.
\<close>

theorem insertApp_Forward_quota_and_unit:
  assumes "insertApp_Forward w ctx = (w', Returned r None)"
    and "index (Params ctx) 0 = Some p"
    and "as_App p = Some app"
  shows "\<exists>app'. r = RAppPtr app' \<and> apps w' (Name app) = Some app'
           \<and> effects w' = effects w @ [Inserted app']
           \<and> Name app' = Name app
           \<and> Units app' = Units app @ [Unit_zero]
           \<and> length (Units app') = length (Units app) + 1
           \<and> InUse app' = InUse Unlimited
           \<and> (case config_GetInt w ''quota:units-per-app'' of
                 None \<Rightarrow> Limit app' = Limit Unlimited
               | Some limit \<Rightarrow> Limit app' = limit)"
  using assms
  by (auto simp: insertApp_Forward_def Apps_Insert_def Let_def
      split: option.splits if_splits)

theorem insertApp_Forward_quota_and_unit_witness:
  "\<exists>w' r app'.
     insertApp_Forward (empty_world\<lparr>config_int := [''quota:units-per-app'' \<mapsto> 2]\<rparr>)
        \<lparr>Params = [PApp (new_app ''come'' ''beatles'')], Previous = RNil\<rparr>
       = (w', Returned r None)
     \<and> index (Params \<lparr>Params = [PApp (new_app ''come'' ''beatles'')], Previous = RNil\<rparr>) 0
         = Some (PApp (new_app ''come'' ''beatles''))
     \<and> as_App (PApp (new_app ''come'' ''beatles'')) = Some (new_app ''come'' ''beatles'')
     \<and> r = RAppPtr app' \<and> apps w' ''come'' = Some app'
     \<and> Units app' = [Unit_zero] \<and> Limit app' = 2 \<and> InUse app' = 0"
proof -
  let ?a = "new_app ''come'' ''beatles''"
  let ?w = "empty_world\<lparr>config_int := [''quota:units-per-app'' \<mapsto> 2]\<rparr>"
  let ?ctx = "\<lparr>Params = [PApp ?a], Previous = RNil\<rparr>"
  let ?a' = "?a\<lparr>Limit := 2, InUse := 0, Units := [Unit_zero]\<rparr>"
  let ?w' = "?w\<lparr>apps := [''come'' \<mapsto> ?a'], effects := [Inserted ?a']\<rparr>"
  have 1: "insertApp_Forward ?w ?ctx = (?w', Returned (RAppPtr ?a') None)"
    by (simp add: insertApp_Forward_def Apps_Insert_def Let_def index_def db_Conn_def
        config_GetInt_def empty_world_def new_app_def Unlimited_def)
  have 2: "index (Params ?ctx) 0 = Some (PApp ?a)"
    by (simp add: index_def)
  have 3: "as_App (PApp ?a) = Some ?a"
    by simp
  from insertApp_Forward_quota_and_unit [OF 1 2 3]
  obtain app' where r: "RAppPtr ?a' = RAppPtr app'" and "apps ?w' (Name ?a) = Some app'"
    "Units app' = Units ?a @ [Unit_zero]" "InUse app' = InUse Unlimited"
    "(case config_GetInt ?w ''quota:units-per-app'' of
        None \<Rightarrow> Limit app' = Limit Unlimited | Some limit \<Rightarrow> Limit app' = limit)"
    by blast
  then have "apps ?w' ''come'' = Some app' \<and> Units app' = [Unit_zero] \<and> Limit app' = 2
      \<and> InUse app' = 0"
    by (simp add: new_app_def config_GetInt_def empty_world_def Unlimited_def)
  with 1 2 3 r show ?thesis
    by blast
qed

subsection \<open>\<^verbatim>\<open>reserveUnitsToAdd\<close>\<close>

text \<open>
  C7: when the parameters of \<^verbatim>\<open>reserveUnitsToAdd.Forward\<close> pass its type checks (an
  app or a pointer to one, then an \<^verbatim>\<open>int\<close> or a \<^verbatim>\<open>uint\<close>), the database can be
  reached, and there is no record of the app's name in the collection, the call
  returns a nil result and \<^verbatim>\<open>ErrAppNotFound\<close>, whose message is "App not found";
  the world is the one before the call, so that nothing was reserved.
\<close>

theorem reserveUnitsToAdd_Forward_app_not_found:
  assumes "index (Params ctx) 0 = Some p0"
    and "as_App p0 = Some app"
    and "index (Params ctx) 1 = Some p1"
    and "as_int p1 = Some n"
    and "db_Conn w = None"
    and "apps w (Name app) = None"
  shows "reserveUnitsToAdd_Forward w ctx = (w, Returned RNil (Some ErrAppNotFound))
         \<and> Error ErrAppNotFound = Some ''App not found''"
  using assms
  by (simp add: reserveUnitsToAdd_Forward_def App_Get_def find_by_name_def)

theorem reserveUnitsToAdd_Forward_app_not_found_witness:
  "index (Params \<lparr>Params = [PAppPtr (new_app ''something'' []), PInt 3], Previous = RNil\<rparr>) 0
     = Some (PAppPtr (new_app ''something'' []))
   \<and> as_App (PAppPtr (new_app ''something'' [])) = Some (new_app ''something'' [])
   \<and> index (Params \<lparr>Params = [PAppPtr (new_app ''something'' []), PInt 3], Previous = RNil\<rparr>) 1
     = Some (PInt 3)
   \<and> as_int (PInt 3) = Some 3
   \<and> db_Conn empty_world = None
   \<and> apps empty_world (Name (new_app ''something'' [])) = None
   \<and> reserveUnitsToAdd_Forward empty_world
        \<lparr>Params = [PAppPtr (new_app ''something'' []), PInt 3], Previous = RNil\<rparr>
      = (empty_world, Returned RNil (Some ErrAppNotFound))"
proof -
  let ?a = "new_app ''something'' []"
  let ?ctx = "\<lparr>Params = [PAppPtr ?a, PInt 3], Previous = RNil\<rparr>"
  have 1: "index (Params ?ctx) 0 = Some (PAppPtr ?a)"
    by (simp add: index_def)
  have 2: "as_App (PAppPtr ?a) = Some ?a"
    by simp
  have 3: "index (Params ?ctx) 1 = Some (PInt 3)"
    by (simp add: index_def)
  have 4: "as_int (PInt 3) = Some 3"
    by simp
  have 5: "db_Conn empty_world = None"
    by (simp add: db_Conn_def empty_world_def)
  have 6: "apps empty_world (Name ?a) = None"
    by (simp add: empty_world_def)
  from reserveUnitsToAdd_Forward_app_not_found [OF 1 2 3 4 5 6] 1 2 3 4 5 6 show ?thesis
    by blast
qed

subsection \<open>\<^verbatim>\<open>saveNewUnitsInDatabase\<close>\<close>

text \<open>
  The loop fills the slice from the counter on with the two messages of each unit,
  in the order of the units, and never writes out of range.
\<close>

lemma save_loop_eq:
  "mCount + 2 * length units \<le> length messages \<Longrightarrow>
   save_loop d units app messages mCount =
     Some (added_units d units app,
           take mCount messages @ unit_messages d units app
             @ drop (mCount + 2 * length units) messages)"
proof (induction units arbitrary: app messages mCount)
  case Nil
  then show ?case by simp
next
  case (Cons u us)
  let ?app = "AddUnit d app (building_unit d u)"
  let ?m1 = "\<lparr>Action = RegenerateApprcAndStart d, Args = [Name ?app, pName u]\<rparr>"
  let ?m2 = "\<lparr>Action = BindService d, Args = [Name ?app, pName u]\<rparr>"
  let ?ms = "messages[mCount := ?m1, Suc mCount := ?m2]"
  from Cons.prems have len: "Suc (Suc mCount) + 2 * length us \<le> length ?ms"
    by simp
  have t: "take (Suc (Suc mCount)) ?ms = take mCount messages @ [?m1, ?m2]"
    using Cons.prems by (simp add: take_Suc_conv_app_nth nth_list_update)
  have dr: "drop (Suc (Suc mCount) + 2 * length us) ?ms
      = drop (mCount + 2 * length (u # us)) messages"
    by simp
  have "save_loop d (u # us) app messages mCount = save_loop d us ?app ?ms (Suc (Suc mCount))"
    using Cons.prems by (simp add: store_def Let_def building_unit_def)
  also have "\<dots> = Some (added_units d us ?app,
      take (Suc (Suc mCount)) ?ms @ unit_messages d us ?app
        @ drop (Suc (Suc mCount) + 2 * length us) ?ms)"
    using Cons.IH [OF len] by simp
  finally show ?case
    by (simp only: t dr) simp
qed

lemma unit_messages_actions:
  "map Action (unit_messages d units app) =
     concat (map (\<lambda>u. [RegenerateApprcAndStart d, BindService d]) units)"
  by (induction units arbitrary: app) simp_all

lemma unit_messages_unit_names:
  "map (\<lambda>m. tl (Args m)) (unit_messages d units app) =
     concat (map (\<lambda>u. [[pName u], [pName u]]) units)"
  by (induction units arbitrary: app) simp_all

lemma length_unit_messages: "length (unit_messages d units app) = 2 * length units"
  by (induction units arbitrary: app) simp_all

lemma save_loop_make:
  "save_loop d units app (replicate (length units * 2) Message_zero) 0 =
     Some (added_units d units app, unit_messages d units app)"
  using save_loop_eq [of 0 units "replicate (length units * 2) Message_zero" d app]
  by simp


lemma Apps_Update_units_failed:
  "Apps_Update_units w n us = (w1, Some e) \<Longrightarrow> w1 = w"
  by (auto simp: Apps_Update_units_def split: option.splits)

lemma Apps_Update_units_committed:
  "Apps_Update_units w n us = (w1, None) \<Longrightarrow>
     effects w1 = effects w @ [UpdatedUnits n us]
     \<and> map_option Units (apps w1 n) = Some us"
  by (auto simp: Apps_Update_units_def split: option.splits)

lemma saveNewUnitsInDatabase_Forward_reaches_update:
  assumes "index (Params ctx) 0 = Some p0"
    and "as_App p0 = Some app0"
    and "Previous ctx = RAddUnitsPtr units"
    and "db_Conn w = None"
    and "App_Get w app0 = Inr app"
  shows "saveNewUnitsInDatabase_Forward d w ctx =
     (case Apps_Update_units w (Name (added_units d units app)) (Units (added_units d units app)) of
        (w1, Some err) \<Rightarrow> (w1, Returned RNil (Some err))
      | (w1, None) \<Rightarrow>
          (w1\<lparr>effects := effects w1 @ [Started (unit_messages d units app)]\<rparr>,
           Returned RNil None))"
  using assms by (simp add: saveNewUnitsInDatabase_Forward_def save_loop_make)

lemma saveNewUnitsInDatabase_Forward_stops_early:
  assumes "saveNewUnitsInDatabase_Forward d w ctx = (w', out)"
    and "\<not> (\<exists>p0 app0 units app. index (Params ctx) 0 = Some p0 \<and> as_App p0 = Some app0
          \<and> Previous ctx = RAddUnitsPtr units \<and> db_Conn w = None \<and> App_Get w app0 = Inr app)"
  shows "out \<noteq> Returned RNil None \<and> w' = w"
  using assms
  by (auto simp: saveNewUnitsInDatabase_Forward_def split: option.splits result.splits sum.splits)

text \<open>
  C8: every call of \<^verbatim>\<open>saveNewUnitsInDatabase.Forward\<close> either returns without an
  error, and then what it did is the update of the units of the app's record
  followed by the start of \<^verbatim>\<open>go Enqueue(messages...)\<close>, in this order, with two
  messages for each added unit, the first with the action
  \<^verbatim>\<open>RegenerateApprcAndStart\<close> and the second with \<^verbatim>\<open>BindService\<close>, both with the
  name of the unit; or it does not, and then the world is the one before the call:
  nothing was enqueued. When the call reaches the update and the update fails,
  the error of the update is returned and the world is the one before the call.
\<close>

theorem saveNewUnitsInDatabase_Forward_enqueue_after_update:
  assumes "saveNewUnitsInDatabase_Forward d w ctx = (w', out)"
  shows "((out = Returned RNil None \<and>
           (\<exists>(app::App) units ms.
              Previous ctx = RAddUnitsPtr units
              \<and> effects w' = effects w @ [UpdatedUnits (Name app) (Units app), Started ms]
              \<and> map_option Units (apps w' (Name app)) = Some (Units app)
              \<and> length ms = 2 * length units
              \<and> map Action ms =
                  concat (map (\<lambda>u. [RegenerateApprcAndStart d, BindService d]) units)
              \<and> map (\<lambda>m. tl (Args m)) ms =
                  concat (map (\<lambda>u. [[pName u], [pName u]]) units)))
          \<or> (out \<noteq> Returned RNil None \<and> w' = w))
         \<and> (\<forall>p0 app0 units app e.
               index (Params ctx) 0 = Some p0 \<and> as_App p0 = Some app0
               \<and> Previous ctx = RAddUnitsPtr units \<and> db_Conn w = None
               \<and> App_Get w app0 = Inr app
               \<and> snd (Apps_Update_units w (Name (added_units d units app))
                         (Units (added_units d units app))) = Some e
               \<longrightarrow> out = Returned RNil (Some e) \<and> w' = w)"
proof (cases "\<exists>p0 app0 units app. index (Params ctx) 0 = Some p0 \<and> as_App p0 = Some app0
          \<and> Previous ctx = RAddUnitsPtr units \<and> db_Conn w = None \<and> App_Get w app0 = Inr app")
  case False
  with saveNewUnitsInDatabase_Forward_stops_early [OF assms] show ?thesis
    by blast
next
  case True
  then obtain p0 app0 units app where r: "index (Params ctx) 0 = Some p0" "as_App p0 = Some app0"
    "Previous ctx = RAddUnitsPtr units" "db_Conn w = None" "App_Get w app0 = Inr app"
    by blast
  let ?app = "added_units d units app"
  obtain w1 res where u: "Apps_Update_units w (Name ?app) (Units ?app) = (w1, res)"
    by (cases "Apps_Update_units w (Name ?app) (Units ?app)")
  note f = saveNewUnitsInDatabase_Forward_reaches_update [OF r, of d]
  show ?thesis
  proof (cases res)
    case None
    with f u assms have o: "out = Returned RNil None"
      and w': "w' = w1\<lparr>effects := effects w1 @ [Started (unit_messages d units app)]\<rparr>"
      by simp_all
    from Apps_Update_units_committed [OF u [unfolded None]] w'
    have e: "effects w' = effects w @ [UpdatedUnits (Name ?app) (Units ?app),
        Started (unit_messages d units app)]"
      and a: "map_option Units (apps w' (Name ?app)) = Some (Units ?app)"
      by simp_all
    have first: "out = Returned RNil None \<and>
           (\<exists>(app::App) units ms.
              Previous ctx = RAddUnitsPtr units
              \<and> effects w' = effects w @ [UpdatedUnits (Name app) (Units app), Started ms]
              \<and> map_option Units (apps w' (Name app)) = Some (Units app)
              \<and> length ms = 2 * length units
              \<and> map Action ms =
                  concat (map (\<lambda>u. [RegenerateApprcAndStart d, BindService d]) units)
              \<and> map (\<lambda>m. tl (Args m)) ms =
                  concat (map (\<lambda>u. [[pName u], [pName u]]) units))"
      apply (rule conjI [OF o])
      apply (rule exI [of _ ?app], rule exI [of _ units])
      apply (rule exI [of _ "unit_messages d units app"])
      using r(3) e a
      by (simp add: length_unit_messages unit_messages_actions unit_messages_unit_names)
    have "\<And>p0' app0' units' app' e.
               index (Params ctx) 0 = Some p0' \<and> as_App p0' = Some app0'
               \<and> Previous ctx = RAddUnitsPtr units' \<and> db_Conn w = None
               \<and> App_Get w app0' = Inr app'
               \<and> snd (Apps_Update_units w (Name (added_units d units' app'))
                         (Units (added_units d units' app'))) = Some e
               \<Longrightarrow> False"
      using r u None by auto
    with first show ?thesis
      by blast
  next
    case (Some e)
    with f u assms have o: "out = Returned RNil (Some e)" and w': "w' = w1"
      by simp_all
    from Apps_Update_units_failed [OF u [unfolded Some]] w' have "w' = w"
      by simp
    moreover have "\<And>p0' app0' units' app' e'.
               index (Params ctx) 0 = Some p0' \<and> as_App p0' = Some app0'
               \<and> Previous ctx = RAddUnitsPtr units' \<and> db_Conn w = None
               \<and> App_Get w app0' = Inr app'
               \<and> snd (Apps_Update_units w (Name (added_units d units' app'))
                         (Units (added_units d units' app'))) = Some e'
               \<Longrightarrow> e' = e"
      using r u Some by auto
    ultimately show ?thesis
      using o by blast
  qed
qed

theorem saveNewUnitsInDatabase_Forward_enqueue_after_update_witness:
  "saveNewUnitsInDatabase_Forward example_deps
      ((world_with (new_app ''visions'' ''django''))\<lparr>write_err := Some (ExternalFailure ''down'')\<rparr>)
      \<lparr>Params = [PAppPtr (new_app ''visions'' ''django'')],
       Previous = RAddUnitsPtr [new_unit ''visions/0'', new_unit ''visions/1'']\<rparr>
     = ((world_with (new_app ''visions'' ''django''))\<lparr>write_err := Some (ExternalFailure ''down'')\<rparr>,
        Returned RNil (Some (ExternalFailure ''down'')))
   \<and> (\<exists>w'. saveNewUnitsInDatabase_Forward example_deps (world_with (new_app ''visions'' ''django''))
          \<lparr>Params = [PAppPtr (new_app ''visions'' ''django'')],
           Previous = RAddUnitsPtr [new_unit ''visions/0'', new_unit ''visions/1'']\<rparr>
         = (w', Returned RNil None)
        \<and> effects w' =
            [UpdatedUnits ''visions''
               [building_unit example_deps (new_unit ''visions/0''),
                building_unit example_deps (new_unit ''visions/1'')],
             Started
               [\<lparr>Action = ''regenerate-apprc-start-app'', Args = [''visions'', ''visions/0'']\<rparr>,
                \<lparr>Action = ''bind-service'', Args = [''visions'', ''visions/0'']\<rparr>,
                \<lparr>Action = ''regenerate-apprc-start-app'', Args = [''visions'', ''visions/1'']\<rparr>,
                \<lparr>Action = ''bind-service'', Args = [''visions'', ''visions/1'']\<rparr>]])"
proof -
  let ?a = "new_app ''visions'' ''django''"
  let ?us = "[new_unit ''visions/0'', new_unit ''visions/1'']"
  let ?ctx = "\<lparr>Params = [PAppPtr ?a], Previous = RAddUnitsPtr ?us\<rparr>"
  let ?wf = "(world_with ?a)\<lparr>write_err := Some (ExternalFailure ''down'')\<rparr>"
  obtain w' out where f: "saveNewUnitsInDatabase_Forward example_deps ?wf ?ctx = (w', out)"
    by (cases "saveNewUnitsInDatabase_Forward example_deps ?wf ?ctx")
  have 1: "index (Params ?ctx) 0 = Some (PAppPtr ?a)"
    by (simp add: index_def)
  have 2: "as_App (PAppPtr ?a) = Some ?a"
    by simp
  have 3: "Previous ?ctx = RAddUnitsPtr ?us"
    by simp
  have 4: "db_Conn ?wf = None"
    by (simp add: db_Conn_def world_with_def empty_world_def)
  have 5: "App_Get ?wf ?a = Inr ?a"
    by (simp add: App_Get_def db_Conn_def find_by_name_def world_with_def empty_world_def)
  have 6: "snd (Apps_Update_units ?wf (Name (added_units example_deps ?us ?a))
      (Units (added_units example_deps ?us ?a))) = Some (ExternalFailure ''down'')"
    by (simp add: Apps_Update_units_def world_with_def empty_world_def example_deps_def
        new_app_def building_unit_def)
  from saveNewUnitsInDatabase_Forward_enqueue_after_update [OF f] 1 2 3 4 5 6
  have "out = Returned RNil (Some (ExternalFailure ''down'')) \<and> w' = ?wf"
    by blast
  with f have failing: "saveNewUnitsInDatabase_Forward example_deps ?wf ?ctx
      = (?wf, Returned RNil (Some (ExternalFailure ''down'')))"
    by simp
  have conn: "db_Conn (world_with ?a) = None"
    by (simp add: db_Conn_def world_with_def empty_world_def)
  have get: "App_Get (world_with ?a) ?a = Inr ?a"
    by (simp add: App_Get_def db_Conn_def find_by_name_def world_with_def empty_world_def)
  have d: "AddUnit example_deps = (\<lambda>a u. a\<lparr>Units := Units a @ [u]\<rparr>)"
    "RegenerateApprcAndStart example_deps = ''regenerate-apprc-start-app''"
    "BindService example_deps = ''bind-service''"
    "pName (new_unit ''visions/0'') = ''visions/0''"
    "pName (new_unit ''visions/1'') = ''visions/1''"
    by (simp_all add: example_deps_def new_unit_def)
  have "\<exists>w'. saveNewUnitsInDatabase_Forward example_deps (world_with ?a) ?ctx
         = (w', Returned RNil None)
        \<and> effects w' =
            [UpdatedUnits ''visions''
               [building_unit example_deps (new_unit ''visions/0''),
                building_unit example_deps (new_unit ''visions/1'')],
             Started
               [\<lparr>Action = ''regenerate-apprc-start-app'', Args = [''visions'', ''visions/0'']\<rparr>,
                \<lparr>Action = ''bind-service'', Args = [''visions'', ''visions/0'']\<rparr>,
                \<lparr>Action = ''regenerate-apprc-start-app'', Args = [''visions'', ''visions/1'']\<rparr>,
                \<lparr>Action = ''bind-service'', Args = [''visions'', ''visions/1'']\<rparr>]]"
    using saveNewUnitsInDatabase_Forward_reaches_update [OF 1 2 3 conn get, of example_deps]
    by (simp add: Apps_Update_units_def world_with_def empty_world_def new_app_def d)
  with failing show ?thesis
    by blast
qed

subsection \<open>\<^verbatim>\<open>exportEnvironmentsAction\<close>\<close>

text \<open>The names of the variables that the forward function builds: the three fixed
  names, then the prefix \<^verbatim>\<open>TSURU_S3_\<close> before each key of the map that the loop
  visits.\<close>

lemma range_variables_names:
  "map EnvName (range_variables inst variables ks envVars) =
     map EnvName envVars @ map (\<lambda>k. ''TSURU_S3_'' @ k) (filter (\<lambda>k. variables k \<noteq> None) ks)"
  by (induction ks arbitrary: envVars) (auto split: option.split)

lemma s3_variables_keys:
  "filter (\<lambda>k. map_of (s3_variables env) k \<noteq> None) ks =
   filter (\<lambda>k. k \<in> {''ENDPOINT'', ''LOCATIONCONSTRAINT'', ''ACCESS_KEY_ID'', ''SECRET_KEY'',
                      ''BUCKET''}) ks"
  by (rule filter_cong) (simp_all add: s3_variables_def)

lemma export_envVars_names:
  "map EnvName (export_envVars d app host token previous) =
     [''TSURU_APPNAME'', ''TSURU_HOST'', ''TSURU_APP_TOKEN''] @
     (case previous of
        RS3EnvPtr env \<Rightarrow>
          map (\<lambda>k. ''TSURU_S3_'' @ k)
            (filter (\<lambda>k. k \<in> {''ENDPOINT'', ''LOCATIONCONSTRAINT'', ''ACCESS_KEY_ID'',
                               ''SECRET_KEY'', ''BUCKET''}) (range_order d))
      | _ \<Rightarrow> [])"
  by (cases previous)
    (simp_all only: export_envVars_def Let_def result.case range_variables_names
       s3_variables_keys list.map append_Cons append_Nil EnvVar.simps)


lemma export_envVars_exact:
  assumes "distinct (range_order d)"
    and "set (range_order d) =
      {''ENDPOINT'', ''LOCATIONCONSTRAINT'', ''ACCESS_KEY_ID'', ''SECRET_KEY'', ''BUCKET''}"
  shows "distinct (map EnvName (export_envVars d app host token previous))"
    and "set (map EnvName (export_envVars d app host token previous)) =
      {''TSURU_APPNAME'', ''TSURU_HOST'', ''TSURU_APP_TOKEN''} \<union>
      (case previous of
         RS3EnvPtr env \<Rightarrow>
           {''TSURU_S3_ENDPOINT'', ''TSURU_S3_LOCATIONCONSTRAINT'', ''TSURU_S3_ACCESS_KEY_ID'',
            ''TSURU_S3_SECRET_KEY'', ''TSURU_S3_BUCKET''}
       | _ \<Rightarrow> {})"
proof -
  let ?keys = "{''ENDPOINT'', ''LOCATIONCONSTRAINT'', ''ACCESS_KEY_ID'', ''SECRET_KEY'', ''BUCKET''}"
  let ?s3 = "map (\<lambda>k. ''TSURU_S3_'' @ k) (range_order d)"
  let ?rest = "case previous of RS3EnvPtr env \<Rightarrow> ?s3 | _ \<Rightarrow> []"
  have f: "filter (\<lambda>k. k \<in> ?keys) (range_order d) = range_order d"
    using assms(2) by (simp only: filter_id_conv) blast
  have n: "map EnvName (export_envVars d app host token previous) =
     [''TSURU_APPNAME'', ''TSURU_HOST'', ''TSURU_APP_TOKEN''] @ ?rest"
    by (simp only: export_envVars_names f)
  have inj: "distinct ?s3"
    using assms(1) by (simp add: distinct_map inj_on_def)
  have img: "set ?s3 =
      {''TSURU_S3_ENDPOINT'', ''TSURU_S3_LOCATIONCONSTRAINT'', ''TSURU_S3_ACCESS_KEY_ID'',
       ''TSURU_S3_SECRET_KEY'', ''TSURU_S3_BUCKET''}"
    by (simp only: set_map assms(2)) simp
  have disj: "set [''TSURU_APPNAME'', ''TSURU_HOST'', ''TSURU_APP_TOKEN''] \<inter> set ?s3 = {}"
    unfolding img by simp
  have three: "distinct [''TSURU_APPNAME'', ''TSURU_HOST'', ''TSURU_APP_TOKEN'']"
    by simp
  have rest: "?rest = [] \<or> ?rest = ?s3"
    by (cases previous) (simp_all only: result.case simp_thms)
  have "distinct ([''TSURU_APPNAME'', ''TSURU_HOST'', ''TSURU_APP_TOKEN''] @ ?rest)"
  proof (rule disjE [OF rest])
    assume "?rest = []"
    with three show ?thesis by (simp only: append_Nil2)
  next
    assume "?rest = ?s3"
    with three inj disj show ?thesis by (simp only: distinct_append simp_thms)
  qed
  with n show "distinct (map EnvName (export_envVars d app host token previous))"
    by (simp only:)
  have "set ?rest =
      (case previous of
         RS3EnvPtr env \<Rightarrow>
           {''TSURU_S3_ENDPOINT'', ''TSURU_S3_LOCATIONCONSTRAINT'', ''TSURU_S3_ACCESS_KEY_ID'',
            ''TSURU_S3_SECRET_KEY'', ''TSURU_S3_BUCKET''}
       | _ \<Rightarrow> {})"
    using img by (cases previous) (simp_all only: result.case list.set)
  moreover have "set [''TSURU_APPNAME'', ''TSURU_HOST'', ''TSURU_APP_TOKEN''] =
      {''TSURU_APPNAME'', ''TSURU_HOST'', ''TSURU_APP_TOKEN''}"
    by simp
  ultimately show "set (map EnvName (export_envVars d app host token previous)) =
      {''TSURU_APPNAME'', ''TSURU_HOST'', ''TSURU_APP_TOKEN''} \<union>
      (case previous of
         RS3EnvPtr env \<Rightarrow>
           {''TSURU_S3_ENDPOINT'', ''TSURU_S3_LOCATIONCONSTRAINT'', ''TSURU_S3_ACCESS_KEY_ID'',
            ''TSURU_S3_SECRET_KEY'', ''TSURU_S3_BUCKET''}
       | _ \<Rightarrow> {})"
    by (simp only: n set_append)
qed


lemma exportEnvironmentsAction_Forward_accepts:
  assumes "exportEnvironmentsAction_Forward d w ctx = (w', Returned r None)"
  shows "\<exists>app w1 host token.
           setEnvsToApp d w1 app (export_envVars d app host token (Previous ctx)) False True
             = (w', None)
           \<and> r = Previous ctx"
proof -
  from assms obtain p0 where p0: "index (Params ctx) 0 = Some p0"
    by (cases "index (Params ctx) 0") (simp_all add: exportEnvironmentsAction_Forward_def)
  from assms p0 obtain app0 where app0: "as_AppPtr p0 = Some app0"
    by (cases "as_AppPtr p0") (simp_all add: exportEnvironmentsAction_Forward_def)
  from assms p0 app0 obtain app where app: "App_Get w app0 = Inr app"
    by (cases "App_Get w app0") (simp_all add: exportEnvironmentsAction_Forward_def)
  obtain w1 t where t: "CreateApplicationToken d w (Name app) = (w1, t)"
    by (cases "CreateApplicationToken d w (Name app)")
  from assms p0 app0 app t obtain token where token: "t = Inr token"
    by (cases t) (simp_all add: exportEnvironmentsAction_Forward_def)
  let ?host = "case config_GetString w1 ''host'' of Some h \<Rightarrow> h | None \<Rightarrow> []"
  let ?vars = "export_envVars d app ?host token (Previous ctx)"
  obtain w2 e where s: "setEnvsToApp d w1 app ?vars False True = (w2, e)"
    by (cases "setEnvsToApp d w1 app ?vars False True")
  from assms p0 app0 app t token s have "e = None \<and> w2 = w' \<and> r = Previous ctx"
    by (cases e) (simp_all add: exportEnvironmentsAction_Forward_def Let_def)
  with s show ?thesis
    by blast
qed

text \<open>
  C9: when \<^verbatim>\<open>exportEnvironmentsAction.Forward\<close> accepts an app (it returns without
  an error), and the \<^verbatim>\<open>range\<close> loop visits each of the five keys of the map
  once, in whatever order, then the world after the call is the one that
  \<^verbatim>\<open>setEnvsToApp\<close> returned for a list of variables whose names are distinct and
  are exactly \<^verbatim>\<open>TSURU_APPNAME\<close>, \<^verbatim>\<open>TSURU_HOST\<close> and \<^verbatim>\<open>TSURU_APP_TOKEN\<close> and, when
  the previous result is a \<^verbatim>\<open>*s3Env\<close>, also \<^verbatim>\<open>TSURU_S3_ENDPOINT\<close>,
  \<^verbatim>\<open>TSURU_S3_LOCATIONCONSTRAINT\<close>, \<^verbatim>\<open>TSURU_S3_ACCESS_KEY_ID\<close>,
  \<^verbatim>\<open>TSURU_S3_SECRET_KEY\<close> and \<^verbatim>\<open>TSURU_S3_BUCKET\<close>.
\<close>

theorem exportEnvironmentsAction_Forward_names:
  assumes "exportEnvironmentsAction_Forward d w ctx = (w', Returned r None)"
    and "distinct (range_order d)"
    and "set (range_order d) =
      {''ENDPOINT'', ''LOCATIONCONSTRAINT'', ''ACCESS_KEY_ID'', ''SECRET_KEY'', ''BUCKET''}"
  shows "\<exists>(app::App) w1 envVars.
           setEnvsToApp d w1 app envVars False True = (w', None)
           \<and> distinct (map EnvName envVars)
           \<and> set (map EnvName envVars) =
               {''TSURU_APPNAME'', ''TSURU_HOST'', ''TSURU_APP_TOKEN''} \<union>
               (case Previous ctx of
                  RS3EnvPtr env \<Rightarrow>
                    {''TSURU_S3_ENDPOINT'', ''TSURU_S3_LOCATIONCONSTRAINT'',
                     ''TSURU_S3_ACCESS_KEY_ID'', ''TSURU_S3_SECRET_KEY'', ''TSURU_S3_BUCKET''}
                | _ \<Rightarrow> {})"
proof -
  from exportEnvironmentsAction_Forward_accepts [OF assms(1)]
  obtain app w1 host token where
    s: "setEnvsToApp d w1 app (export_envVars d app host token (Previous ctx)) False True
          = (w', None)"
    by blast
  show ?thesis
    apply (rule exI [of _ app], rule exI [of _ w1])
    apply (rule exI [of _ "export_envVars d app host token (Previous ctx)"])
    using s export_envVars_exact [OF assms(2,3), of app host token "Previous ctx"]
    by (simp only: simp_thms)
qed


theorem exportEnvironmentsAction_Forward_names_witness:
  "\<exists>w' (app::App) w1 envVars.
     exportEnvironmentsAction_Forward example_deps (world_with (new_app ''mist'' ''opeth''))
        \<lparr>Params = [PAppPtr (new_app ''mist'' ''opeth'')], Previous = RS3EnvPtr example_s3Env\<rparr>
       = (w', Returned (RS3EnvPtr example_s3Env) None)
     \<and> distinct (range_order example_deps)
     \<and> set (range_order example_deps) =
         {''ENDPOINT'', ''LOCATIONCONSTRAINT'', ''ACCESS_KEY_ID'', ''SECRET_KEY'', ''BUCKET''}
     \<and> setEnvsToApp example_deps w1 app envVars False True = (w', None)
     \<and> distinct (map EnvName envVars)
     \<and> set (map EnvName envVars) =
         {''TSURU_APPNAME'', ''TSURU_HOST'', ''TSURU_APP_TOKEN'',
          ''TSURU_S3_ENDPOINT'', ''TSURU_S3_LOCATIONCONSTRAINT'', ''TSURU_S3_ACCESS_KEY_ID'',
          ''TSURU_S3_SECRET_KEY'', ''TSURU_S3_BUCKET''}"
proof -
  let ?w = "world_with (new_app ''mist'' ''opeth'')"
  let ?ctx = "\<lparr>Params = [PAppPtr (new_app ''mist'' ''opeth'')],
               Previous = RS3EnvPtr example_s3Env\<rparr>"
  have d: "CreateApplicationToken example_deps = (\<lambda>w n. (w, Inr ''token''))"
    "range_order example_deps =
       [''BUCKET'', ''ENDPOINT'', ''SECRET_KEY'', ''LOCATIONCONSTRAINT'', ''ACCESS_KEY_ID'']"
    by (simp_all add: example_deps_def)
  have s: "setEnvsToApp example_deps =
      (\<lambda>w a vars publicOnly useQueue.
         (w\<lparr>apps := (apps w)(Name a \<mapsto> a\<lparr>Env := fold (\<lambda>v e. e(EnvName v \<mapsto> v)) vars (Env a)\<rparr>)\<rparr>,
          None))"
    by (simp add: example_deps_def)
  have "snd (exportEnvironmentsAction_Forward example_deps ?w ?ctx)
      = Returned (RS3EnvPtr example_s3Env) None"
    by (simp add: exportEnvironmentsAction_Forward_def index_def App_Get_def db_Conn_def
        find_by_name_def world_with_def empty_world_def Let_def d s new_app_def
        config_GetString_def)
  then obtain w' where f: "exportEnvironmentsAction_Forward example_deps ?w ?ctx
      = (w', Returned (RS3EnvPtr example_s3Env) None)"
    by (cases "exportEnvironmentsAction_Forward example_deps ?w ?ctx") simp
  have h2: "distinct (range_order example_deps)"
    by (simp add: d)
  have h3: "set (range_order example_deps) =
      {''ENDPOINT'', ''LOCATIONCONSTRAINT'', ''ACCESS_KEY_ID'', ''SECRET_KEY'', ''BUCKET''}"
    unfolding d by auto
  have u: "{''TSURU_APPNAME'', ''TSURU_HOST'', ''TSURU_APP_TOKEN''} \<union>
      {''TSURU_S3_ENDPOINT'', ''TSURU_S3_LOCATIONCONSTRAINT'', ''TSURU_S3_ACCESS_KEY_ID'',
       ''TSURU_S3_SECRET_KEY'', ''TSURU_S3_BUCKET''} =
      {''TSURU_APPNAME'', ''TSURU_HOST'', ''TSURU_APP_TOKEN'',
       ''TSURU_S3_ENDPOINT'', ''TSURU_S3_LOCATIONCONSTRAINT'', ''TSURU_S3_ACCESS_KEY_ID'',
       ''TSURU_S3_SECRET_KEY'', ''TSURU_S3_BUCKET''}"
    by (simp only: Un_insert_left Un_empty_left)
  from exportEnvironmentsAction_Forward_names [OF f h2 h3]
  have "\<exists>(app::App) w1 envVars.
      setEnvsToApp example_deps w1 app envVars False True = (w', None)
      \<and> distinct (map EnvName envVars)
      \<and> set (map EnvName envVars) =
         {''TSURU_APPNAME'', ''TSURU_HOST'', ''TSURU_APP_TOKEN'',
          ''TSURU_S3_ENDPOINT'', ''TSURU_S3_LOCATIONCONSTRAINT'', ''TSURU_S3_ACCESS_KEY_ID'',
          ''TSURU_S3_SECRET_KEY'', ''TSURU_S3_BUCKET''}"
    by (simp only: FWContext.select_convs result.case u)
  then obtain app :: App where "\<exists>w1 envVars.
      setEnvsToApp example_deps w1 app envVars False True = (w', None)
      \<and> distinct (map EnvName envVars)
      \<and> set (map EnvName envVars) =
         {''TSURU_APPNAME'', ''TSURU_HOST'', ''TSURU_APP_TOKEN'',
          ''TSURU_S3_ENDPOINT'', ''TSURU_S3_LOCATIONCONSTRAINT'', ''TSURU_S3_ACCESS_KEY_ID'',
          ''TSURU_S3_SECRET_KEY'', ''TSURU_S3_BUCKET''}" ..
  then obtain w1 where "\<exists>envVars.
      setEnvsToApp example_deps w1 app envVars False True = (w', None)
      \<and> distinct (map EnvName envVars)
      \<and> set (map EnvName envVars) =
         {''TSURU_APPNAME'', ''TSURU_HOST'', ''TSURU_APP_TOKEN'',
          ''TSURU_S3_ENDPOINT'', ''TSURU_S3_LOCATIONCONSTRAINT'', ''TSURU_S3_ACCESS_KEY_ID'',
          ''TSURU_S3_SECRET_KEY'', ''TSURU_S3_BUCKET''}" ..
  then obtain envVars where e:
     "setEnvsToApp example_deps w1 app envVars False True = (w', None)
      \<and> distinct (map EnvName envVars)
      \<and> set (map EnvName envVars) =
         {''TSURU_APPNAME'', ''TSURU_HOST'', ''TSURU_APP_TOKEN'',
          ''TSURU_S3_ENDPOINT'', ''TSURU_S3_LOCATIONCONSTRAINT'', ''TSURU_S3_ACCESS_KEY_ID'',
          ''TSURU_S3_SECRET_KEY'', ''TSURU_S3_BUCKET''}" ..
  show ?thesis
    apply (rule exI [of _ w'], rule exI [of _ app], rule exI [of _ w1], rule exI [of _ envVars])
    using f h2 h3 e by (simp only: simp_thms)
qed

section \<open>Properties of the pipeline executor\<close>

text \<open>The calls of the unwinding: one backward call for each entry of the execution
  record that has a backward operation, in the order of the record.\<close>

lemma unwind_calls:
  "unwind ps rcd w cs = (w', cs') \<Longrightarrow>
   cs' = cs @ map BackwardCall (map fst (filter (\<lambda>e. Backward (fst (snd e)) \<noteq> None) rcd))"
proof (induction rcd arbitrary: w cs)
  case Nil
  then show ?case by simp
next
  case (Cons e rcd)
  obtain i a r where e: "e = (i, a, r)"
    by (cases e)
  show ?case
  proof (cases "Backward a")
    case None
    with Cons e show ?thesis by simp
  next
    case (Some backward)
    with Cons.prems e
    have "unwind ps rcd (backward w \<lparr>BWParams = ps, FWResult = r\<rparr>) (cs @ [BackwardCall i])
        = (w', cs')"
      by simp
    from Cons.IH [OF this] Some e show ?thesis by simp
  qed
qed

lemma upt_head:
  "[i..<Suc (i + k)] = i # [Suc i..<Suc (i + k)]"
  "[i..<Suc (Suc (i + k))] = i # [Suc i..<Suc (Suc (i + k))]"
  by (simp_all add: upt_conv_Cons)

lemma running_calls:
  fixes actions :: "('w, 'p, 'r, 'e) Action list"
  shows "running ps actions i previous rcd w cs = (w', t, cs') \<Longrightarrow>
   \<exists>k (rcd' :: (nat \<times> ('w, 'p, 'r, 'e) Action \<times> 'r) list).
     k \<le> length actions \<and> map fst rcd' = rev [i..<i + k] @ map fst rcd \<and>
     (\<forall>r. t = Succeeded r \<longrightarrow> k = length actions \<and> cs' = cs @ map ForwardCall [i..<i + k]) \<and>
     (\<forall>e. t = Failed e \<longrightarrow>
          k < length actions \<and>
          cs' = cs @ map ForwardCall [i..<Suc (i + k)] @
            map BackwardCall (map fst (filter (\<lambda>e. Backward (fst (snd e)) \<noteq> None) rcd'))) \<and>
     (\<forall>a x y. t = NotEnoughParameters a x y \<longrightarrow>
          k < length actions \<and>
          cs' = cs @ map ForwardCall [i..<i + k] @
            map BackwardCall (map fst (filter (\<lambda>e. Backward (fst (snd e)) \<noteq> None) rcd')))"
proof (induction actions arbitrary: i previous rcd w cs)
  case Nil
  then have "t = Succeeded previous" "cs' = cs"
    by simp_all
  then show ?case
    by (intro exI [of _ 0] exI [of _ rcd]) simp
next
  case (Cons a actions)
  show ?case
  proof (cases "length ps < MinParams a")
    case True
    obtain w1 c1 where u: "unwind ps rcd w cs = (w1, c1)"
      by (cases "unwind ps rcd w cs")
    with Cons.prems True have "c1 = cs'"
      and t: "t = NotEnoughParameters (ActionName a) (MinParams a) (length ps)"
      by simp_all
    with unwind_calls [OF u] show ?thesis
      by (intro exI [of _ 0] exI [of _ rcd]) simp
  next
    case False
    obtain w1 r err where f: "Forward a w \<lparr>Params = ps, Previous = previous\<rparr> = (w1, r, err)"
      by (cases "Forward a w \<lparr>Params = ps, Previous = previous\<rparr>")
    show ?thesis
    proof (cases err)
      case (Some e)
      obtain w2 c2 where u: "unwind ps rcd w1 (cs @ [ForwardCall i]) = (w2, c2)"
        by (cases "unwind ps rcd w1 (cs @ [ForwardCall i])")
      with Cons.prems False f Some have "c2 = cs'" and t: "t = Failed e"
        by simp_all
      with unwind_calls [OF u] show ?thesis
        by (intro exI [of _ 0] exI [of _ rcd]) simp
    next
      case None
      with Cons.prems False f
      have "running ps actions (Suc i) r ((i, a, r) # rcd) w1 (cs @ [ForwardCall i])
          = (w', t, cs')"
        by simp
      from Cons.IH [OF this] obtain k where "\<exists>rcd' :: (nat \<times> ('w, 'p, 'r, 'e) Action \<times> 'r) list.
     k \<le> length actions \<and> map fst rcd' = rev [Suc i..<Suc i + k] @ map fst ((i, a, r) # rcd) \<and>
     (\<forall>r. t = Succeeded r \<longrightarrow> k = length actions \<and>
        cs' = (cs @ [ForwardCall i]) @ map ForwardCall [Suc i..<Suc i + k]) \<and>
     (\<forall>e. t = Failed e \<longrightarrow>
          k < length actions \<and>
          cs' = (cs @ [ForwardCall i]) @ map ForwardCall [Suc i..<Suc (Suc i + k)] @
            map BackwardCall (map fst (filter (\<lambda>e. Backward (fst (snd e)) \<noteq> None) rcd'))) \<and>
     (\<forall>a x y. t = NotEnoughParameters a x y \<longrightarrow>
          k < length actions \<and>
          cs' = (cs @ [ForwardCall i]) @ map ForwardCall [Suc i..<Suc i + k] @
            map BackwardCall (map fst (filter (\<lambda>e. Backward (fst (snd e)) \<noteq> None) rcd')))" ..
      then obtain rcd' :: "(nat \<times> ('w, 'p, 'r, 'e) Action \<times> 'r) list" where ih:
     "k \<le> length actions \<and> map fst rcd' = rev [Suc i..<Suc i + k] @ map fst ((i, a, r) # rcd) \<and>
     (\<forall>r. t = Succeeded r \<longrightarrow> k = length actions \<and>
        cs' = (cs @ [ForwardCall i]) @ map ForwardCall [Suc i..<Suc i + k]) \<and>
     (\<forall>e. t = Failed e \<longrightarrow>
          k < length actions \<and>
          cs' = (cs @ [ForwardCall i]) @ map ForwardCall [Suc i..<Suc (Suc i + k)] @
            map BackwardCall (map fst (filter (\<lambda>e. Backward (fst (snd e)) \<noteq> None) rcd'))) \<and>
     (\<forall>a x y. t = NotEnoughParameters a x y \<longrightarrow>
          k < length actions \<and>
          cs' = (cs @ [ForwardCall i]) @ map ForwardCall [Suc i..<Suc i + k] @
            map BackwardCall (map fst (filter (\<lambda>e. Backward (fst (snd e)) \<noteq> None) rcd')))" ..
      from ih show ?thesis
        by (intro exI [of _ "Suc k"] exI [of _ rcd']) (simp del: upt_Suc add: upt_head)
    qed
  qed
qed

text \<open>
  In every run of every pipeline the calls are the forward calls, in the order of
  the pipeline, and then backward calls at strictly descending positions; a run
  that succeeds makes no backward call, and a run in which a forward operation
  fails makes no backward call at the position of that operation or after it.
\<close>

lemma Execute_calls_order:
  fixes actions :: "('w, 'p, 'r, 'e) Action list"
  assumes "Execute actions ps seed w = (w', t, cs)"
  shows "\<exists>m bs. cs = map ForwardCall [0..<m] @ map BackwardCall bs
           \<and> sorted_wrt (>) bs
           \<and> (\<forall>b \<in> set bs. b < m)
           \<and> (\<forall>r. t = Succeeded r \<longrightarrow> bs = [] \<and> m = length actions)
           \<and> (\<forall>e. t = Failed e \<longrightarrow> (\<forall>b \<in> set bs. Suc b < m))"
proof -
  from assms have "running ps actions 0 seed [] w [] = (w', t, cs)"
    by (simp add: Execute_def)
  from running_calls [OF this] obtain k where
    "\<exists>rcd' :: (nat \<times> ('w, 'p, 'r, 'e) Action \<times> 'r) list.
     k \<le> length actions \<and> map fst rcd' = rev [0..<0 + k] @ map fst ([] :: (nat \<times> ('w, 'p, 'r, 'e) Action \<times> 'r) list) \<and>
     (\<forall>r. t = Succeeded r \<longrightarrow> k = length actions \<and> cs = [] @ map ForwardCall [0..<0 + k]) \<and>
     (\<forall>e. t = Failed e \<longrightarrow>
          k < length actions \<and>
          cs = [] @ map ForwardCall [0..<Suc (0 + k)] @
            map BackwardCall (map fst (filter (\<lambda>e. Backward (fst (snd e)) \<noteq> None) rcd'))) \<and>
     (\<forall>a x y. t = NotEnoughParameters a x y \<longrightarrow>
          k < length actions \<and>
          cs = [] @ map ForwardCall [0..<0 + k] @
            map BackwardCall (map fst (filter (\<lambda>e. Backward (fst (snd e)) \<noteq> None) rcd')))" ..
  then obtain rcd' :: "(nat \<times> ('w, 'p, 'r, 'e) Action \<times> 'r) list" where raw:
    "k \<le> length actions \<and> map fst rcd' = rev [0..<0 + k] @ map fst ([] :: (nat \<times> ('w, 'p, 'r, 'e) Action \<times> 'r) list) \<and>
     (\<forall>r. t = Succeeded r \<longrightarrow> k = length actions \<and> cs = [] @ map ForwardCall [0..<0 + k]) \<and>
     (\<forall>e. t = Failed e \<longrightarrow>
          k < length actions \<and>
          cs = [] @ map ForwardCall [0..<Suc (0 + k)] @
            map BackwardCall (map fst (filter (\<lambda>e. Backward (fst (snd e)) \<noteq> None) rcd'))) \<and>
     (\<forall>a x y. t = NotEnoughParameters a x y \<longrightarrow>
          k < length actions \<and>
          cs = [] @ map ForwardCall [0..<0 + k] @
            map BackwardCall (map fst (filter (\<lambda>e. Backward (fst (snd e)) \<noteq> None) rcd')))" ..
  let ?bs = "map fst (filter (\<lambda>e. Backward (fst (snd e)) \<noteq> None) rcd')"
  from raw have r: "map fst rcd' = rev [0..<k]"
    by simp
  have "sorted_wrt (>) (map fst rcd')"
    unfolding r by (simp add: sorted_wrt_rev)
  then have "sorted_wrt (\<lambda>x y. fst x > fst y) rcd'"
    by (simp add: sorted_wrt_map)
  then have "sorted_wrt (\<lambda>x y. fst x > fst y) (filter (\<lambda>e. Backward (fst (snd e)) \<noteq> None) rcd')"
    by (rule sorted_wrt_filter)
  then have s: "sorted_wrt (>) ?bs"
    by (simp add: sorted_wrt_map)
  have sub: "set ?bs \<subseteq> set (map fst rcd')"
    by auto
  have "set (map fst rcd') = {0..<k}"
    unfolding r by simp
  with sub have "set ?bs \<subseteq> {0..<k}"
    by (simp only:)
  then have b: "\<forall>b \<in> set ?bs. b < k"
    using atLeastLessThan_iff by blast
  show ?thesis
  proof (cases t)
    case (Succeeded x)
    with raw have "cs = map ForwardCall [0..<k]" "k = length actions"
      by simp_all
    with Succeeded show ?thesis
      by (intro exI [of _ k] exI [of _ "[]"]) simp
  next
    case (Failed x)
    with raw have "cs = map ForwardCall [0..<Suc k] @ map BackwardCall ?bs"
      by simp
    with Failed s b show ?thesis
      by (intro exI [of _ "Suc k"] exI [of _ ?bs]) (simp del: upt_Suc, fastforce)
  next
    case (NotEnoughParameters x y z)
    with raw have "cs = map ForwardCall [0..<k] @ map BackwardCall ?bs"
      by simp
    with NotEnoughParameters s b show ?thesis
      by (intro exI [of _ k] exI [of _ ?bs]) simp
  qed
qed

text \<open>
  C2: in a pipeline \<open>[A, B, C]\<close> whose arguments suffice for the three actions,
  where the forward operations of \<open>A\<close> and \<open>B\<close> succeed and that of \<open>C\<close> fails
  with an error, the executor reports this error, and the calls that it makes are
  the three forward calls, then the backward operation of \<open>B\<close>, then that of \<open>A\<close>:
  no backward call of \<open>C\<close>. The backward operation of \<open>A\<close> starts from the world
  that the backward operation of \<open>B\<close> returned, and each receives the result of
  its own forward operation.
\<close>

theorem Execute_rollback_reverse_order:
  assumes "Forward A w0 \<lparr>Params = ps, Previous = seed\<rparr> = (w1, rA, None)"
    and "Forward B w1 \<lparr>Params = ps, Previous = rA\<rparr> = (w2, rB, None)"
    and "Forward C w2 \<lparr>Params = ps, Previous = rB\<rparr> = (w3, rC, Some err)"
    and "MinParams A \<le> length ps"
    and "MinParams B \<le> length ps"
    and "MinParams C \<le> length ps"
    and "Backward A = Some backwardA"
    and "Backward B = Some backwardB"
  shows "Execute [A, B, C] ps seed w0 =
           (backwardA (backwardB w3 \<lparr>BWParams = ps, FWResult = rB\<rparr>)
              \<lparr>BWParams = ps, FWResult = rA\<rparr>,
            Failed err,
            [ForwardCall 0, ForwardCall 1, ForwardCall 2, BackwardCall 1, BackwardCall 0])"
  using assms by (simp add: Execute_def)

theorem Execute_rollback_reverse_order_witness:
  "Execute [logging_action ''A'' None, logging_action ''B'' None, logging_action ''C'' (Some ''boom'')]
     [0] [] [] =
     ([''A.forward'', ''B.forward'', ''C.forward'', ''B.backward(AB)'', ''A.backward(A)''],
      Failed ''boom'',
      [ForwardCall 0, ForwardCall 1, ForwardCall 2, BackwardCall 1, BackwardCall 0])"
proof -
  let ?A = "logging_action ''A'' None"
  let ?B = "logging_action ''B'' None"
  let ?C = "logging_action ''C'' (Some ''boom'')"
  have a: "Forward ?A [] \<lparr>Params = [0], Previous = []\<rparr> = ([''A.forward''], ''A'', None)"
    by (simp add: logging_action_def)
  have b: "Forward ?B [''A.forward''] \<lparr>Params = [0], Previous = ''A''\<rparr> =
      ([''A.forward'', ''B.forward''], ''AB'', None)"
    by (simp add: logging_action_def)
  have c: "Forward ?C [''A.forward'', ''B.forward''] \<lparr>Params = [0], Previous = ''AB''\<rparr> =
      ([''A.forward'', ''B.forward'', ''C.forward''], ''ABC'', Some ''boom'')"
    by (simp add: logging_action_def)
  have m: "MinParams ?A \<le> length [0::nat]" "MinParams ?B \<le> length [0::nat]"
    "MinParams ?C \<le> length [0::nat]"
    by (simp_all add: logging_action_def)
  have ba: "Backward ?A = Some (\<lambda>w ctx. w @ [''A'' @ ''.backward('' @ FWResult ctx @ '')''])"
    by (simp add: logging_action_def)
  have bb: "Backward ?B = Some (\<lambda>w ctx. w @ [''B'' @ ''.backward('' @ FWResult ctx @ '')''])"
    by (simp add: logging_action_def)
  from Execute_rollback_reverse_order [OF a b c m ba bb] show ?thesis
    by simp
qed

section \<open>Properties of the quota ledger\<close>

text \<open>
  C5: for an owner whose quota has the limit 7 and 7 in use, the release of 6
  succeeds with one conditional update and leaves 1 in use; the release of 8
  fails with InsufficientReservation, whose message is "Not enough reserved
  units", and the store is the one before the call.
\<close>

theorem release_7_7:
  assumes "find_by_name c n = Some r"
    and "Limit r = 7"
    and "InUse r = 7"
  shows "release nf c n 6 =
           (c(n \<mapsto> r\<lparr>InUse := 1\<rparr>), None, [Find n, ConditionalUpdate n 7 1 True])
         \<and> release nf c n 8 = (c, Some InsufficientReservation, [Find n])
         \<and> Error InsufficientReservation = Some ''Not enough reserved units''"
  using assms by (simp add: find_by_name_def conditional_update_def)

theorem release_7_7_witness:
  "find_by_name quota_7_7 ''together'' = Some \<lparr>Limit = 7, InUse = 7\<rparr>
   \<and> release ErrAppNotFound quota_7_7 ''together'' 6 =
       ([''together'' \<mapsto> \<lparr>Limit = 7, InUse = 1\<rparr>], None,
        [Find ''together'', ConditionalUpdate ''together'' 7 1 True])
   \<and> release ErrAppNotFound quota_7_7 ''together'' 8 =
       (quota_7_7, Some InsufficientReservation, [Find ''together''])"
proof -
  have f: "find_by_name quota_7_7 ''together'' = Some \<lparr>Limit = 7, InUse = 7\<rparr>"
    by (simp add: find_by_name_def quota_7_7_def)
  from release_7_7 [OF f, of ErrAppNotFound] f show ?thesis
    by (simp add: quota_7_7_def)
qed

text \<open>
  C6: for an owner whose record exists with the unlimited quota, and for every
  amount, \<open>reserve\<close> returns without an error, the store holds the record with the
  amount added to its consumption, and the accesses are the lookup and the
  unconditional update: there is no conditional update, and no retry. The caller
  of the concurrent system goes from the start to the unconditional update and
  returns; it is never about to update conditionally.
\<close>

theorem reserve_unlimited:
  assumes "find_by_name c n = Some r"
    and "is_unlimited r"
  shows "reserve nf c n quantity =
           (c(n \<mapsto> r\<lparr>InUse := InUse r + quantity\<rparr>), None,
            [Find n, UnconditionalUpdate n quantity])
         \<and> reserve_step nf n quantity c Start = (c, Unconditional)
         \<and> reserve_step nf n quantity c Unconditional =
             (c(n \<mapsto> r\<lparr>InUse := InUse r + quantity\<rparr>), Finished None)"
  using assms by (simp add: find_by_name_def increment_def reserve_step_def)

theorem reserve_unlimited_witness:
  "find_by_name quota_unlimited ''together'' = Some Unlimited
   \<and> is_unlimited Unlimited
   \<and> reserve ErrAppNotFound quota_unlimited ''together'' 6 =
       ([''together'' \<mapsto> \<lparr>Limit = - 1, InUse = 6\<rparr>], None,
        [Find ''together'', UnconditionalUpdate ''together'' 6])"
proof -
  have f: "find_by_name quota_unlimited ''together'' = Some Unlimited"
    by (simp add: find_by_name_def quota_unlimited_def)
  have u: "is_unlimited Unlimited"
    by (simp add: is_unlimited_def)
  from reserve_unlimited [OF f u, of ErrAppNotFound 6] f u show ?thesis
    by (simp add: quota_unlimited_def Unlimited_def)
qed

section \<open>Concurrent reservations\<close>

text \<open>Sums over a list in which one element is replaced.\<close>

text \<open>
  A caller that runs alone makes the accesses of the sequential \<open>reserve\<close> and
  returns what it returns: one access when the owner is missing or the quota is
  exceeded, two otherwise.
\<close>

lemma reserve_alone:
  assumes "reserve nf c n q = (c', e, l)"
  shows "reserve_step nf n q c Start = (c', Finished e)
         \<or> (\<exists>p. reserve_step nf n q c Start = (c, p)
                \<and> reserve_step nf n q c p = (c', Finished e))"
  using assms
  by (auto simp: reserve_step_def find_by_name_def increment_def conditional_update_def Let_def
      split: option.splits if_splits)

lemma sum_list_map_update_int:
  fixes f :: "'a \<Rightarrow> int"
  shows "i < length xs \<Longrightarrow> (\<Sum>x\<leftarrow>xs[i := y]. f x) = (\<Sum>x\<leftarrow>xs. f x) - f (xs ! i) + f y"
proof (induction xs arbitrary: i)
  case Nil
  then show ?case by simp
next
  case (Cons x xs)
  then show ?case by (cases i) simp_all
qed

lemma sum_list_map_update_nat:
  fixes f :: "'a \<Rightarrow> nat"
  shows "i < length xs \<Longrightarrow> (\<Sum>x\<leftarrow>xs[i := y]. f x) + f (xs ! i) = (\<Sum>x\<leftarrow>xs. f x) + f y"
proof (induction xs arbitrary: i)
  case Nil
  then show ?case by simp
next
  case (Cons x xs)
  then show ?case by (cases i) simp_all
qed

lemma granted_update:
  "i < length ts \<Longrightarrow>
   granted (ts[i := t]) =
     granted ts - (if at (ts ! i) = Finished None then amount (ts ! i) else 0)
       + (if at t = Finished None then amount t else 0)"
  unfolding granted_def by (rule sum_list_map_update_int)

lemma granted_count:
  "\<forall>t \<in> set ts. amount t = 3 \<Longrightarrow>
   granted ts = 3 * int (length (filter (\<lambda>t. at t = Finished None) ts))"
  by (induction ts) (simp_all add: granted_def)

lemma weight_stale: "weight u' p \<le> weight u p + 2"
  by (cases p) simp_all

lemma sum_weight_stale:
  "(\<Sum>t\<leftarrow>ts. weight u' (at t)) \<le> (\<Sum>t\<leftarrow>ts. weight u (at t)) + 2 * length ts"
proof (induction ts)
  case Nil
  then show ?case by simp
next
  case (Cons t ts)
  have "weight u' (at t) \<le> weight u (at t) + 2"
    by (rule weight_stale)
  with Cons show ?case by simp
qed

text \<open>What the invariant says, part by part.\<close>

lemma inv40_D:
  assumes "inv40 n (c, ts)"
  obtains r where "c n = Some r" "Limit r = 40" "InUse r = granted ts" "0 \<le> InUse r"
    "InUse r \<le> 40" "length ts = 20" "\<forall>t \<in> set ts. owner t = n \<and> amount t = 3"
    "\<forall>t \<in> set ts. at t \<noteq> Unconditional"
    "\<forall>t \<in> set ts. \<forall>v. at t = Conditional v \<longrightarrow> v \<le> 37"
    "\<forall>t \<in> set ts. \<forall>e. at t = Finished (Some e) \<longrightarrow> e = QuotaExceededError 3 1 \<and> InUse r = 39"
proof -
  from assms obtain r where r: "c n = Some r"
    by (cases "c n") (simp_all add: inv40_def)
  from assms r have a: "Limit r = 40" "InUse r = granted ts" "0 \<le> InUse r" "InUse r \<le> 40"
    "length ts = 20" "\<forall>t \<in> set ts. owner t = n \<and> amount t = 3"
    and b: "\<forall>t \<in> set ts.
                  case at t of
                    Start \<Rightarrow> True
                  | Unconditional \<Rightarrow> False
                  | Conditional v \<Rightarrow> v \<le> 37
                  | Finished None \<Rightarrow> True
                  | Finished (Some e) \<Rightarrow> e = QuotaExceededError 3 1 \<and> InUse r = 39"
    by (simp_all add: inv40_def)
  from b have "\<forall>t \<in> set ts. at t \<noteq> Unconditional"
    by (auto split: pc.splits)
  moreover from b have "\<forall>t \<in> set ts. \<forall>v. at t = Conditional v \<longrightarrow> v \<le> 37"
    by (auto split: pc.splits)
  moreover from b have "\<forall>t \<in> set ts. \<forall>e. at t = Finished (Some e)
      \<longrightarrow> e = QuotaExceededError 3 1 \<and> InUse r = 39"
    by (auto split: pc.splits option.splits)
  ultimately show thesis
    using that r a by blast
qed

lemma inv40_I:
  assumes "c n = Some r" "Limit r = 40" "InUse r = granted ts" "0 \<le> InUse r"
    "InUse r \<le> 40" "length ts = 20" "\<forall>t \<in> set ts. owner t = n \<and> amount t = 3"
    "\<forall>t \<in> set ts. at t \<noteq> Unconditional"
    "\<forall>t \<in> set ts. \<forall>v. at t = Conditional v \<longrightarrow> v \<le> 37"
    "\<forall>t \<in> set ts. \<forall>e. at t = Finished (Some e) \<longrightarrow> e = QuotaExceededError 3 1 \<and> InUse r = 39"
  shows "inv40 n (c, ts)"
  using assms by (auto simp: inv40_def split: pc.splits option.splits)


lemma set_update_cases:
  "t \<in> set (ts[i := t']) \<Longrightarrow> t = t' \<or> t \<in> set ts"
  using set_update_subset_insert [of ts i t'] by auto

lemma in_progress_step:
  assumes inv: "inv40 n (c, ts)"
    and i: "i < length ts"
    and nf: "\<not> finished (ts ! i)"
  shows "inv40 n (fire nf' i (c, ts)) \<and> potential n (fire nf' i (c, ts)) < potential n (c, ts)"
proof -
  from inv obtain r where r: "c n = Some r" "Limit r = 40" "InUse r = granted ts"
    "0 \<le> InUse r" "InUse r \<le> 40" "length ts = 20"
    and own: "\<forall>t \<in> set ts. owner t = n \<and> amount t = 3"
    and nu: "\<forall>t \<in> set ts. at t \<noteq> Unconditional"
    and cv: "\<forall>t \<in> set ts. \<forall>v. at t = Conditional v \<longrightarrow> v \<le> 37"
    and fe: "\<forall>t \<in> set ts. \<forall>e. at t = Finished (Some e)
        \<longrightarrow> e = QuotaExceededError 3 1 \<and> InUse r = 39"
    by (rule inv40_D)
  let ?t = "ts ! i"
  let ?u = "InUse r"
  from i have ti: "?t \<in> set ts"
    by simp
  with own have ot: "owner ?t = n" "amount ?t = 3"
    by simp_all
  from r(2) have lim: "\<not> is_unlimited r"
    by (simp add: is_unlimited_def Unlimited_def)
  from own have "granted ts = 3 * int (length (filter (\<lambda>t. at t = Finished None) ts))"
    by (intro granted_count) simp
  with r(3) obtain k :: nat where k: "?u = 3 * int k"
    by simp
  have pot: "potential n (c, ts) = 41 * nat ((40 - ?u) div 3) + (\<Sum>t\<leftarrow>ts. weight ?u (at t))"
    by (simp add: potential_def r(1))
  from nf nu ti consider
      (start_ok) "at ?t = Start" "?u \<le> 37"
    | (start_exceeded) "at ?t = Start" "37 < ?u"
    | (update_ok) v where "at ?t = Conditional v" "v = ?u"
    | (update_conflict) v where "at ?t = Conditional v" "v \<noteq> ?u"
    by (cases "at ?t"; cases "?u \<le> 37") (auto simp: finished_def)
  then show ?thesis
  proof cases
    case start_ok
    let ?t' = "?t\<lparr>at := Conditional ?u\<rparr>"
    let ?ts' = "ts[i := ?t']"
    have f: "fire nf' i (c, ts) = (c, ?ts')"
      using start_ok r(1,2) lim ot
      by (simp add: fire_def reserve_step_def find_by_name_def Let_def)
    have g: "granted ?ts' = granted ts"
      using i start_ok by (simp add: granted_update)
    have "inv40 n (c, ?ts')"
    proof (rule inv40_I [of c n r])
      show "c n = Some r" "Limit r = 40" by fact+
      show "InUse r = granted ?ts'" using g r(3) by simp
      show "0 \<le> InUse r" "InUse r \<le> 40" by fact+
      show "length ?ts' = 20" using r(6) by simp
      show "\<forall>t \<in> set ?ts'. owner t = n \<and> amount t = 3"
        using own ot by (auto dest!: set_update_cases)
      show "\<forall>t \<in> set ?ts'. at t \<noteq> Unconditional"
        using nu by (auto dest!: set_update_cases)
      show "\<forall>t \<in> set ?ts'. \<forall>v. at t = Conditional v \<longrightarrow> v \<le> 37"
        using cv start_ok(2) by (auto dest!: set_update_cases)
      show "\<forall>t \<in> set ?ts'. \<forall>e. at t = Finished (Some e)
          \<longrightarrow> e = QuotaExceededError 3 1 \<and> InUse r = 39"
        using fe by (auto dest!: set_update_cases)
    qed
    moreover have "potential n (c, ?ts') < potential n (c, ts)"
    proof -
      have "(\<Sum>t\<leftarrow>?ts'. weight ?u (at t)) + weight ?u (at ?t)
          = (\<Sum>t\<leftarrow>ts. weight ?u (at t)) + weight ?u (at ?t')"
        using i by (rule sum_list_map_update_nat)
      with start_ok(1) have "(\<Sum>t\<leftarrow>?ts'. weight ?u (at t)) < (\<Sum>t\<leftarrow>ts. weight ?u (at t))"
        by simp
      then show ?thesis
        by (simp add: potential_def r(1))
    qed
    ultimately show ?thesis
      by (simp only: f)
  next
    case start_exceeded
    with k r(5) have u39: "?u = 39"
      by arith
    let ?t' = "?t\<lparr>at := Finished (Some (QuotaExceededError 3 1))\<rparr>"
    let ?ts' = "ts[i := ?t']"
    have f: "fire nf' i (c, ts) = (c, ?ts')"
      using start_exceeded(1) u39 r(1,2) lim ot
      by (simp add: fire_def reserve_step_def find_by_name_def Let_def)
    have g: "granted ?ts' = granted ts"
      using i start_exceeded(1) by (simp add: granted_update)
    have "inv40 n (c, ?ts')"
    proof (rule inv40_I [of c n r])
      show "c n = Some r" "Limit r = 40" by fact+
      show "InUse r = granted ?ts'" using g r(3) by simp
      show "0 \<le> InUse r" "InUse r \<le> 40" by fact+
      show "length ?ts' = 20" using r(6) by simp
      show "\<forall>t \<in> set ?ts'. owner t = n \<and> amount t = 3"
        using own ot by (auto dest!: set_update_cases)
      show "\<forall>t \<in> set ?ts'. at t \<noteq> Unconditional"
        using nu by (auto dest!: set_update_cases)
      show "\<forall>t \<in> set ?ts'. \<forall>v. at t = Conditional v \<longrightarrow> v \<le> 37"
        using cv by (auto dest!: set_update_cases)
      show "\<forall>t \<in> set ?ts'. \<forall>e. at t = Finished (Some e)
          \<longrightarrow> e = QuotaExceededError 3 1 \<and> InUse r = 39"
        using fe u39 by (auto dest!: set_update_cases)
    qed
    moreover have "potential n (c, ?ts') < potential n (c, ts)"
    proof -
      have "(\<Sum>t\<leftarrow>?ts'. weight ?u (at t)) + weight ?u (at ?t)
          = (\<Sum>t\<leftarrow>ts. weight ?u (at t)) + weight ?u (at ?t')"
        using i by (rule sum_list_map_update_nat)
      with start_exceeded(1)
      have "(\<Sum>t\<leftarrow>?ts'. weight ?u (at t)) < (\<Sum>t\<leftarrow>ts. weight ?u (at t))"
        by simp
      then show ?thesis
        by (simp add: potential_def r(1))
    qed
    ultimately show ?thesis
      by (simp only: f)
  next
    case update_conflict
    let ?t' = "?t\<lparr>at := Start\<rparr>"
    let ?ts' = "ts[i := ?t']"
    have f: "fire nf' i (c, ts) = (c, ?ts')"
      using update_conflict r(1) ot
      by (simp add: fire_def reserve_step_def conditional_update_def)
    have g: "granted ?ts' = granted ts"
      using i update_conflict(1) by (simp add: granted_update)
    have "inv40 n (c, ?ts')"
    proof (rule inv40_I [of c n r])
      show "c n = Some r" "Limit r = 40" by fact+
      show "InUse r = granted ?ts'" using g r(3) by simp
      show "0 \<le> InUse r" "InUse r \<le> 40" by fact+
      show "length ?ts' = 20" using r(6) by simp
      show "\<forall>t \<in> set ?ts'. owner t = n \<and> amount t = 3"
        using own ot by (auto dest!: set_update_cases)
      show "\<forall>t \<in> set ?ts'. at t \<noteq> Unconditional"
        using nu by (auto dest!: set_update_cases)
      show "\<forall>t \<in> set ?ts'. \<forall>v. at t = Conditional v \<longrightarrow> v \<le> 37"
        using cv by (auto dest!: set_update_cases)
      show "\<forall>t \<in> set ?ts'. \<forall>e. at t = Finished (Some e)
          \<longrightarrow> e = QuotaExceededError 3 1 \<and> InUse r = 39"
        using fe by (auto dest!: set_update_cases)
    qed
    moreover have "potential n (c, ?ts') < potential n (c, ts)"
    proof -
      have "(\<Sum>t\<leftarrow>?ts'. weight ?u (at t)) + weight ?u (at ?t)
          = (\<Sum>t\<leftarrow>ts. weight ?u (at t)) + weight ?u (at ?t')"
        using i by (rule sum_list_map_update_nat)
      with update_conflict
      have "(\<Sum>t\<leftarrow>?ts'. weight ?u (at t)) < (\<Sum>t\<leftarrow>ts. weight ?u (at t))"
        by simp
      then show ?thesis
        by (simp add: potential_def r(1))
    qed
    ultimately show ?thesis
      by (simp only: f)
  next
    case update_ok
    from update_ok cv ti have u37: "?u \<le> 37"
      by blast
    let ?r' = "r\<lparr>InUse := ?u + 3\<rparr>"
    let ?c' = "c(n \<mapsto> ?r')"
    let ?t' = "?t\<lparr>at := Finished None\<rparr>"
    let ?ts' = "ts[i := ?t']"
    have f: "fire nf' i (c, ts) = (?c', ?ts')"
      using update_ok r(1) ot
      by (simp add: fire_def reserve_step_def conditional_update_def)
    have g: "granted ?ts' = granted ts + 3"
      using i update_ok(1) ot by (simp add: granted_update)
    from fe u37 have nl: "\<forall>t \<in> set ts. \<forall>e. at t \<noteq> Finished (Some e)"
      by fastforce
    have "inv40 n (?c', ?ts')"
    proof (rule inv40_I [of ?c' n ?r'])
      show "?c' n = Some ?r'" by simp
      show "Limit ?r' = 40" using r(2) by simp
      show "InUse ?r' = granted ?ts'" using g r(3) by simp
      show "0 \<le> InUse ?r'" using r(4) by simp
      show "InUse ?r' \<le> 40" using u37 by simp
      show "length ?ts' = 20" using r(6) by simp
      show "\<forall>t \<in> set ?ts'. owner t = n \<and> amount t = 3"
        using own ot by (auto dest!: set_update_cases)
      show "\<forall>t \<in> set ?ts'. at t \<noteq> Unconditional"
        using nu by (auto dest!: set_update_cases)
      show "\<forall>t \<in> set ?ts'. \<forall>v. at t = Conditional v \<longrightarrow> v \<le> 37"
        using cv by (auto dest!: set_update_cases)
      show "\<forall>t \<in> set ?ts'. \<forall>e. at t = Finished (Some e)
          \<longrightarrow> e = QuotaExceededError 3 1 \<and> InUse ?r' = 39"
        using nl by (auto dest!: set_update_cases)
    qed
    moreover have "potential n (?c', ?ts') < potential n (c, ts)"
    proof -
      have "(\<Sum>t\<leftarrow>?ts'. weight (?u + 3) (at t)) + weight (?u + 3) (at ?t)
          = (\<Sum>t\<leftarrow>ts. weight (?u + 3) (at t)) + weight (?u + 3) (at ?t')"
        using i by (rule sum_list_map_update_nat)
      then have "(\<Sum>t\<leftarrow>?ts'. weight (?u + 3) (at t)) \<le> (\<Sum>t\<leftarrow>ts. weight (?u + 3) (at t))"
        by simp
      also have "\<dots> \<le> (\<Sum>t\<leftarrow>ts. weight ?u (at t)) + 2 * length ts"
        by (rule sum_weight_stale)
      finally have s: "(\<Sum>t\<leftarrow>?ts'. weight (?u + 3) (at t)) \<le> (\<Sum>t\<leftarrow>ts. weight ?u (at t)) + 40"
        using r(6) by simp
      from u37 r(4) have "nat ((40 - (?u + 3)) div 3) + 1 = nat ((40 - ?u) div 3)"
        by arith
      then have "41 * nat ((40 - (?u + 3)) div 3) + 41 = 41 * nat ((40 - ?u) div 3)"
        by simp
      with s have "41 * nat ((40 - (?u + 3)) div 3) + (\<Sum>t\<leftarrow>?ts'. weight (?u + 3) (at t))
          < 41 * nat ((40 - ?u) div 3) + (\<Sum>t\<leftarrow>ts. weight ?u (at t))"
        by linarith
      then show ?thesis
        by (simp add: potential_def r(1))
    qed
    ultimately show ?thesis
      by (simp only: f)
  qed
qed


lemma interleave_step:
  assumes "inv40 n cfg" and "interleave nf cfg cfg'"
  shows "inv40 n cfg' \<and> potential n cfg' < potential n cfg"
  using assms(2,1) by (cases rule: interleave.cases) (simp add: in_progress_step)

lemma interleave_steps:
  "(interleave nf ^^ k) cfg0 cfg \<Longrightarrow> inv40 n cfg0 \<Longrightarrow>
   inv40 n cfg \<and> potential n cfg + k \<le> potential n cfg0"
proof (induction k arbitrary: cfg)
  case 0
  then show ?case by simp
next
  case (Suc k)
  from Suc.prems(1) obtain mid where m: "(interleave nf ^^ k) cfg0 mid" "interleave nf mid cfg"
    by auto
  from Suc.IH [OF m(1) Suc.prems(2)]
  have i: "inv40 n mid" and p: "potential n mid + k \<le> potential n cfg0"
    by simp_all
  from interleave_step [OF i m(2)] p show ?case
    by simp
qed

lemma inv40_start:
  assumes "c n = Some r" "Limit r = 40" "InUse r = 0"
  shows "inv40 n (c, replicate 20 \<lparr>owner = n, amount = 3, at = Start\<rparr>)"
    and "potential n (c, replicate 20 \<lparr>owner = n, amount = 3, at = Start\<rparr>) = 573"
  using assms by (simp_all add: inv40_def potential_def granted_def sum_list_replicate)

lemma inv40_finished:
  assumes inv: "inv40 n (c, ts)"
    and fin: "\<forall>t \<in> set ts. finished t"
    and r: "c n = Some r"
  shows "InUse r = 39"
proof -
  from inv obtain r' where r': "c n = Some r'" "InUse r' = granted ts" "InUse r' \<le> 40"
    "length ts = 20"
    and own': "\<forall>t \<in> set ts. owner t = n \<and> amount t = 3"
    and fe': "\<forall>t \<in> set ts. \<forall>e. at t = Finished (Some e)
        \<longrightarrow> e = QuotaExceededError 3 1 \<and> InUse r' = 39"
    by (rule inv40_D)
  from r'(1) r have "r' = r"
    by simp
  with r' own' fe' have a: "InUse r = granted ts" "InUse r \<le> 40" "length ts = 20"
    and own: "\<forall>t \<in> set ts. owner t = n \<and> amount t = 3"
    and fe: "\<forall>t \<in> set ts. \<forall>e. at t = Finished (Some e)
        \<longrightarrow> e = QuotaExceededError 3 1 \<and> InUse r = 39"
    by simp_all
  show ?thesis
  proof (cases "\<exists>t \<in> set ts. \<exists>e. at t = Finished (Some e)")
    case True
    with fe show ?thesis by blast
  next
    case False
    have "at t = Finished None" if t: "t \<in> set ts" for t
    proof -
      from fin t obtain e where e: "at t = Finished e"
        by (cases "at t") (auto simp: finished_def)
      with False t show ?thesis
        by (cases e) auto
    qed
    then have "\<forall>t \<in> set ts. at t = Finished None"
      by blast
    then have "filter (\<lambda>t. at t = Finished None) ts = ts"
      by (simp add: filter_id_conv)
    moreover from own have "granted ts = 3 * int (length (filter (\<lambda>t. at t = Finished None) ts))"
      by (intro granted_count) simp
    ultimately have "granted ts = 60"
      using a(3) by simp
    with a show ?thesis by simp
  qed
qed

lemma admissible_run:
  "admissible nf sched cfg \<Longrightarrow>
   (interleave nf ^^ length sched) cfg (run_schedule nf sched cfg)"
proof (induction sched arbitrary: cfg)
  case Nil
  then show ?case by simp
next
  case (Cons i sched)
  obtain c ts where cfg: "cfg = (c, ts)"
    by (cases cfg)
  from Cons.prems cfg have "interleave nf cfg (fire nf i cfg)"
    by (simp add: interleave.step)
  moreover from Cons.prems
  have "(interleave nf ^^ length sched) (fire nf i cfg) (run_schedule nf sched (fire nf i cfg))"
    by (intro Cons.IH) simp
  ultimately have "(interleave nf ^^ Suc (length sched)) cfg
      (run_schedule nf sched (fire nf i cfg))"
    by (rule relpowp_Suc_I2)
  then show ?case
    by simp
qed

text \<open>
  C1: for an owner whose quota has the limit 40 and nothing in use, and twenty
  concurrent callers of \<open>reserve\<close> with the amount 3, in every state that the
  system reaches, whatever the interleaving of the accesses to the store: the
  consumption is the sum of the reservations that succeeded (each call added its
  3 units or nothing, and no update was lost), and it does not exceed the limit;
  every caller that returned with an error received QuotaExceeded with 3
  requested and 1 available; when all the callers have returned the consumption
  is exactly 39; as long as one has not returned the system can make a step; and
  the number of steps made is at most 573, so that every run ends.
\<close>

theorem reserve_twenty_callers_limit_40:
  assumes "c0 n = Some r0"
    and "Limit r0 = 40"
    and "InUse r0 = 0"
    and "(interleave nf ^^ k) (c0, replicate 20 \<lparr>owner = n, amount = 3, at = Start\<rparr>) (c, ts)"
  shows "\<exists>r. c n = Some r
           \<and> InUse r = granted ts \<and> InUse r \<le> Limit r \<and> Limit r = 40
           \<and> (\<forall>t \<in> set ts. \<forall>e. at t = Finished (Some e) \<longrightarrow> e = QuotaExceededError 3 1)
           \<and> ((\<forall>t \<in> set ts. finished t) \<longrightarrow> InUse r = 39)
           \<and> ((\<exists>t \<in> set ts. \<not> finished t) \<longrightarrow> (\<exists>cfg'. interleave nf (c, ts) cfg'))
           \<and> k \<le> 573"
proof -
  let ?start = "(c0, replicate 20 \<lparr>owner = n, amount = 3, at = Start\<rparr>)"
  from inv40_start [of c0 n r0, OF assms(1,2,3)]
  have s: "inv40 n ?start" and p: "potential n ?start = 573"
    by simp_all
  from interleave_steps [OF assms(4) s] p
  have inv: "inv40 n (c, ts)" and k: "k \<le> 573"
    by simp_all
  from inv obtain r where r: "c n = Some r" "Limit r = 40" "InUse r = granted ts"
    "InUse r \<le> 40"
    and fe: "\<forall>t \<in> set ts. \<forall>e. at t = Finished (Some e)
        \<longrightarrow> e = QuotaExceededError 3 1 \<and> InUse r = 39"
    by (rule inv40_D)
  have fin: "(\<forall>t \<in> set ts. finished t) \<longrightarrow> InUse r = 39"
    using inv40_finished [OF inv _ r(1)] by blast
  have prog: "(\<exists>t \<in> set ts. \<not> finished t) \<longrightarrow> (\<exists>cfg'. interleave nf (c, ts) cfg')"
  proof
    assume "\<exists>t \<in> set ts. \<not> finished t"
    then obtain i where "i < length ts" "\<not> finished (ts ! i)"
      by (auto simp: in_set_conv_nth)
    then have "interleave nf (c, ts) (fire nf i (c, ts))"
      by (rule interleave.step)
    then show "\<exists>cfg'. interleave nf (c, ts) cfg'" ..
  qed
  from r fe fin prog k show ?thesis
    by auto
qed


theorem reserve_twenty_callers_limit_40_witness:
  "(interleave ErrAppNotFound ^^ 371) limit_40_start
      (run_schedule ErrAppNotFound contended limit_40_start)
   \<and> map at (snd (run_schedule ErrAppNotFound contended limit_40_start)) =
       replicate 13 (Finished None) @ replicate 7 (Finished (Some (QuotaExceededError 3 1)))
   \<and> map_option InUse (fst (run_schedule ErrAppNotFound contended limit_40_start) ''together'')
       = Some 39"
proof -
  let ?c0 = "[''together'' \<mapsto> \<lparr>Limit = 40, InUse = 0\<rparr>]"
  have a: "admissible ErrAppNotFound contended limit_40_start"
    by code_simp
  have l: "length contended = 371"
    by code_simp
  have run: "(interleave ErrAppNotFound ^^ 371) limit_40_start
      (run_schedule ErrAppNotFound contended limit_40_start)"
    using admissible_run [OF a] unfolding l .
  obtain c ts where final: "run_schedule ErrAppNotFound contended limit_40_start = (c, ts)"
    by (cases "run_schedule ErrAppNotFound contended limit_40_start")
  have h1: "?c0 ''together'' = Some \<lparr>Limit = 40, InUse = 0\<rparr>"
    by simp
  have h2: "Limit \<lparr>Limit = 40, InUse = 0\<rparr> = 40"
    by simp
  have h3: "InUse \<lparr>Limit = 40, InUse = 0\<rparr> = 0"
    by simp
  from run have "(interleave ErrAppNotFound ^^ 371) limit_40_start (c, ts)"
    by (simp only: final)
  then have h4: "(interleave ErrAppNotFound ^^ 371)
      (?c0, replicate 20 \<lparr>owner = ''together'', amount = 3, at = Start\<rparr>) (c, ts)"
    by (simp only: limit_40_start_def)
  have "list_all finished (snd (run_schedule ErrAppNotFound contended limit_40_start))"
    by code_simp
  then have fin: "\<forall>t \<in> set ts. finished t"
    unfolding final by (simp add: list_all_iff)
  from reserve_twenty_callers_limit_40 [OF h1 h2 h3 h4] fin
  obtain r where "c ''together'' = Some r" "InUse r = 39"
    by blast
  then have "map_option InUse (fst (run_schedule ErrAppNotFound contended limit_40_start) ''together'')
       = Some 39"
    unfolding final by simp
  moreover have "map at (snd (run_schedule ErrAppNotFound contended limit_40_start)) =
       replicate 13 (Finished None) @ replicate 7 (Finished (Some (QuotaExceededError 3 1)))"
    by code_simp
  ultimately show ?thesis
    using run by blast
qed

end
